(* ===== verification/Prelude.thy ===== *)
theory Prelude
  imports Main "HOL-Library.Sublist"
begin

text \<open>
  Shared vocabulary of the development of \<open>src/libs/highland-batch-by\<close>.
  TypeScript's \<open>T | null\<close> is \<open>'a option\<close> (\<open>None\<close> is \<open>null\<close>); the
  named collection \<open>batch_simps\<close> gathers the rewrite rules the component proofs
  share; the list lemmas below are the ones several component theories use.
\<close>

type_synonym 'a nullable = "'a option"

named_theorems batch_simps "rewrite rules shared by the batching proofs"

text \<open>
  JavaScript's truthiness test \<open>if (v)\<close> on the values of one type is a predicate
  on that type. Objects and arrays are always truthy.
\<close>

type_synonym 'a truthiness = "'a \<Rightarrow> bool"

definition object_truthy :: "'a truthiness" where
  "object_truthy v = True"

text \<open>\<open>ToBoolean\<close> on numbers (integral ones; \<open>NaN\<close> is not modelled): only \<open>0\<close> is falsy.\<close>

definition int_truthy :: "int truthiness" where
  "int_truthy n \<longleftrightarrow> n \<noteq> 0"

lemma object_truthy_True [simp, batch_simps]: "object_truthy v"
  by (simp add: object_truthy_def)

lemma filter_object_truthy [simp, batch_simps]: "filter object_truthy xs = xs"
  by (simp add: object_truthy_def)

text \<open>Emitting zero or one value, as a list: the shape of every \<open>batch_to_push\<close>.\<close>

definition opt_list :: "'a nullable \<Rightarrow> 'a list" where
  "opt_list p = (case p of None \<Rightarrow> [] | Some v \<Rightarrow> [v])"

lemma opt_list_simps [simp, batch_simps]:
  "opt_list None = []" "opt_list (Some v) = [v]"
  by (simp_all add: opt_list_def)

lemma in_opt_list [simp, batch_simps]: "v \<in> set (opt_list p) \<longleftrightarrow> p = Some v"
  by (cases p) auto

lemma length_opt_list_le [batch_simps]: "length (opt_list p) \<le> 1"
  by (cases p) simp_all

lemma length_filter_opt_list_le [batch_simps]: "length (filter P (opt_list p)) \<le> 1"
  by (cases p) simp_all

lemma filter_opt_list [batch_simps]:
  "filter P (opt_list p) = (case p of None \<Rightarrow> [] | Some v \<Rightarrow> if P v then [v] else [])"
  by (cases p) simp_all

end
