(* ===== verification/Control.thy ===== *)
theory Control
  imports Prelude
begin

text \<open>
  The \<open>Control\<close> interface of \<open>highland-batch-by.ts\<close> (lines 3--7): the three
  callbacks a batching policy supplies. A TypeScript callback may throw; the model
  makes that explicit, so every callback returns \<open>'x + _\<close> with \<open>Inl x\<close> the
  exception \<open>x\<close>. \<open>beginWith\<close> is a thunk in the code; it is called once, so its
  one result is the field's value. The field \<open>end\<close> is \<open>end_fn\<close> here, since
  \<open>end\<close> is a keyword of Isabelle; its result \<open>{batch_to_push}\<close> is the pushed
  value itself.

  A policy whose callbacks never throw is a \<open>pure_control\<close>; \<open>lift_control\<close>
  embeds it. This is the view of the specification (section 4.1), whose callbacks
  return plain values, and the interface on which the policies of
  \<open>SamePattern\<close> and the generic theorems of \<open>BatchBy\<close> meet.
\<close>

record ('b, 'pb) each_result =
  batch_to_update :: 'b
  batch_to_push :: "'pb nullable"

record ('b, 'e, 'pb, 'x) control =
  beginWith :: "'x + 'b"
  forEachEntry :: "'b \<Rightarrow> 'e \<Rightarrow> 'x + ('b, 'pb) each_result"
  end_fn :: "'b \<Rightarrow> 'x + 'pb nullable"

record ('b, 'e, 'pb) pure_control =
  pure_beginWith :: 'b
  pure_forEachEntry :: "'b \<Rightarrow> 'e \<Rightarrow> ('b, 'pb) each_result"
  pure_end :: "'b \<Rightarrow> 'pb nullable"

definition lift_control :: "('b, 'e, 'pb) pure_control \<Rightarrow> ('b, 'e, 'pb, 'x) control" where
  "lift_control c =
     \<lparr>beginWith = Inr (pure_beginWith c),
      forEachEntry = (\<lambda>b e. Inr (pure_forEachEntry c b e)),
      end_fn = (\<lambda>b. Inr (pure_end c b))\<rparr>"

lemma lift_control_sel [simp, batch_simps]:
  "beginWith (lift_control c) = Inr (pure_beginWith c)"
  "forEachEntry (lift_control c) b e = Inr (pure_forEachEntry c b e)"
  "end_fn (lift_control c) b = Inr (pure_end c b)"
  by (simp_all add: lift_control_def)

end
