(* ===== verification/BatchBy.thy ===== *)
theory BatchBy
  imports Control
begin

text \<open>
  The transform \<open>batchBy(control)(object_stream)\<close> of \<open>highland-batch-by.ts\<close>
  (lines 9--30). The code runs \<open>object_stream.scan(control.beginWith(), cb)\<close>, whose
  callback \<open>cb\<close> calls \<open>forEachEntry\<close> and writes a truthy \<open>batch_to_push\<close> to
  \<open>output_stream\<close>; then \<open>.last()\<close> takes the final accumulator (the initial one
  when the input is empty, since highland's \<open>scan\<close> emits its seed first), \<open>.map\<close>
  calls \<open>end\<close> and writes its truthy push, and \<open>.done\<close> ends \<open>output_stream\<close>.

  The model threads the state the code mutates: the accumulator and the list of
  values written so far to \<open>output_stream\<close>. A callback that throws stops the
  run: the exception is not written to \<open>output_stream\<close> (the code only ever calls
  \<open>write\<close> and \<open>end\<close> on it), and \<open>end()\<close> is not reached.
\<close>

subsection \<open>Operations\<close>

text \<open>\<open>if (result.batch_to_push) output_stream.write(result.batch_to_push)\<close>\<close>

definition push_if :: "'pb truthiness \<Rightarrow> 'pb nullable \<Rightarrow> 'pb list \<Rightarrow> 'pb list" where
  "push_if truthy p out =
     (case p of None \<Rightarrow> out | Some v \<Rightarrow> if truthy v then out @ [v] else out)"

text \<open>The callback passed to \<open>scan\<close> (lines 12--18).\<close>

definition scan_step ::
  "'pb truthiness \<Rightarrow> ('b, 'e, 'pb, 'x) control \<Rightarrow> 'b \<times> 'pb list \<Rightarrow> 'e \<Rightarrow> 'x + 'b \<times> 'pb list" where
  "scan_step truthy c st entry =
     (case forEachEntry c (fst st) entry of
        Inl x \<Rightarrow> Inl x
      | Inr result \<Rightarrow> Inr (batch_to_update result, push_if truthy (batch_to_push result) (snd st)))"

text \<open>
  \<open>stream.scan(seed, f).last()\<close>: the last accumulator of the scan, or the exception
  of the first call of \<open>f\<close> that throws, with the state reached before it.
\<close>

fun scan_last :: "('a \<Rightarrow> 'e \<Rightarrow> 'x + 'a) \<Rightarrow> 'a \<Rightarrow> 'e list \<Rightarrow> ('x \<times> 'a) + 'a" where
  "scan_last f z [] = Inr z"
| "scan_last f z (e # es) = (case f z e of Inl x \<Rightarrow> Inl (x, z) | Inr z' \<Rightarrow> scan_last f z' es)"

text \<open>
  What a run leaves behind: the values written to \<open>output_stream\<close>, in order, and
  whether \<open>output_stream.end()\<close> was called or an exception escaped the pipeline.
\<close>

datatype 'x bb_status = Stream_ended | Error_escaped 'x

record ('pb, 'x) bb_run =
  written :: "'pb list"
  status :: "'x bb_status"

definition batchBy :: "'pb truthiness \<Rightarrow> ('b, 'e, 'pb, 'x) control \<Rightarrow> 'e list \<Rightarrow> ('pb, 'x) bb_run" where
  "batchBy truthy c object_stream =
     (case beginWith c of
        Inl x \<Rightarrow> \<lparr>written = [], status = Error_escaped x\<rparr>
      | Inr b0 \<Rightarrow>
          (case scan_last (scan_step truthy c) (b0, []) object_stream of
             Inl (x, _, out) \<Rightarrow> \<lparr>written = out, status = Error_escaped x\<rparr>
           | Inr (last_batch, out) \<Rightarrow>
               (case end_fn c last_batch of
                  Inl x \<Rightarrow> \<lparr>written = out, status = Error_escaped x\<rparr>
                | Inr p \<Rightarrow> \<lparr>written = push_if truthy p out, status = Stream_ended\<rparr>)))"

subsection \<open>The specification's algorithm\<close>

text \<open>
  Section 4.2 of the specification, for callbacks that do not throw: emit every
  present push of \<open>forEachEntry\<close> in input order, then the push of \<open>end\<close>. Written
  as a right fold that returns the final accumulator and the emitted values.
\<close>

fun spec_fold :: "('b, 'e, 'pb) pure_control \<Rightarrow> 'b \<Rightarrow> 'e list \<Rightarrow> 'b \<times> 'pb list" where
  "spec_fold c b [] = (b, [])"
| "spec_fold c b (e # es) =
     (let r = pure_forEachEntry c b e;
          (b', ps) = spec_fold c (batch_to_update r) es
      in (b', opt_list (batch_to_push r) @ ps))"

definition spec_batchBy :: "('b, 'e, 'pb) pure_control \<Rightarrow> 'e list \<Rightarrow> 'pb list" where
  "spec_batchBy c xs =
     (let (b, ps) = spec_fold c (pure_beginWith c) xs in ps @ opt_list (pure_end c b))"

subsection \<open>Lemmas on the operations\<close>

lemma spec_fold_Cons_proj [simp, batch_simps]:
  "spec_fold c b (e # es) =
     (fst (spec_fold c (batch_to_update (pure_forEachEntry c b e)) es),
      opt_list (batch_to_push (pure_forEachEntry c b e)) @
        snd (spec_fold c (batch_to_update (pure_forEachEntry c b e)) es))"
  by (simp add: Let_def split: prod.split)

declare spec_fold.simps(2) [simp del]

lemma spec_batchBy_proj [batch_simps]:
  "spec_batchBy c xs =
     snd (spec_fold c (pure_beginWith c) xs) @ opt_list (pure_end c (fst (spec_fold c (pure_beginWith c) xs)))"
  by (simp add: spec_batchBy_def split: prod.split)

lemma push_if_filter [batch_simps]: "push_if truthy p out = out @ filter truthy (opt_list p)"
  by (cases p) (simp_all add: push_if_def)

lemma push_if_object [batch_simps]: "push_if object_truthy p out = out @ opt_list p"
  by (simp add: push_if_filter)

lemma scan_step_Inr [batch_simps]:
  "forEachEntry c b e = Inr r \<Longrightarrow>
     scan_step truthy c (b, out) e = Inr (batch_to_update r, push_if truthy (batch_to_push r) out)"
  by (simp add: scan_step_def)

lemma scan_step_Inl [batch_simps]:
  "forEachEntry c b e = Inl x \<Longrightarrow> scan_step truthy c (b, out) e = Inl x"
  by (simp add: scan_step_def)

text \<open>One step writes at most one value, after what was written before.\<close>

lemma push_if_append_bound:
  assumes "out' = push_if truthy p out @ ws" and "length ws \<le> n"
  shows "\<exists>vs. out' = out @ vs \<and> length vs \<le> Suc n"
proof -
  have "length (filter truthy (opt_list p)) \<le> 1" by (rule length_filter_opt_list_le)
  with assms show ?thesis
    by (intro exI [of _ "filter truthy (opt_list p) @ ws"]) (simp add: push_if_filter)
qed

text \<open>Running the scan over two pieces of input is running it over each in turn.\<close>

lemma scan_last_append:
  "scan_last f z (xs @ ys) = (case scan_last f z xs of Inl r \<Rightarrow> Inl r | Inr z' \<Rightarrow> scan_last f z' ys)"
  by (induction xs arbitrary: z) (simp_all split: sum.split)

text \<open>The scan only ever appends to the output it is given.\<close>

lemma scan_last_extends:
  "scan_last (scan_step truthy c) (b, out) xs = Inr (b', out') \<Longrightarrow>
     \<exists>ws. out' = out @ ws \<and> length ws \<le> length xs"
proof (induction xs arbitrary: b out)
  case Nil
  then show ?case by simp
next
  case (Cons e es)
  then obtain r where r: "forEachEntry c b e = Inr r"
    and rest: "scan_last (scan_step truthy c) (batch_to_update r, push_if truthy (batch_to_push r) out) es
               = Inr (b', out')"
    by (cases "forEachEntry c b e") (auto simp: scan_step_Inl scan_step_Inr)
  from Cons.IH [OF rest] obtain ws where
    "out' = push_if truthy (batch_to_push r) out @ ws" "length ws \<le> length es" by blast
  from push_if_append_bound [OF this] show ?case by simp
qed

lemma scan_last_error_extends:
  "scan_last (scan_step truthy c) (b, out) xs = Inl (x, b', out') \<Longrightarrow>
     \<exists>ws. out' = out @ ws \<and> length ws \<le> length xs"
proof (induction xs arbitrary: b out)
  case Nil
  then show ?case by simp
next
  case (Cons e es)
  show ?case
  proof (cases "forEachEntry c b e")
    case (Inl y)
    with Cons.prems show ?thesis by (simp add: scan_step_Inl)
  next
    case (Inr r)
    with Cons.prems have
      "scan_last (scan_step truthy c) (batch_to_update r, push_if truthy (batch_to_push r) out) es
         = Inl (x, b', out')"
      by (simp add: scan_step_Inr)
    from Cons.IH [OF this] obtain ws where
      "out' = push_if truthy (batch_to_push r) out @ ws" "length ws \<le> length es" by blast
    from push_if_append_bound [OF this] show ?thesis by simp
  qed
qed

text \<open>
  On a policy that never throws, the code's left fold with the output threaded
  through it computes the specification's right fold, less the values that are
  not truthy.
\<close>

lemma scan_last_lift:
  "scan_last (scan_step truthy (lift_control c)) (b, out) xs =
     Inr (fst (spec_fold c b xs), out @ filter truthy (snd (spec_fold c b xs)))"
  by (induction xs arbitrary: b out)
     (simp_all add: scan_step_Inr push_if_filter)

text \<open>
  The transform on a policy that never throws: \<open>output_stream\<close> receives the
  specification's emissions that are truthy, and is ended.
\<close>

lemma batchBy_lift:
  "batchBy truthy (lift_control c) xs =
     \<lparr>written = filter truthy (spec_batchBy c xs), status = Stream_ended\<rparr>"
  by (simp add: batchBy_def scan_last_lift spec_batchBy_def push_if_filter split: prod.split)

lemma batchBy_prefix_error:
  assumes "beginWith c = Inr b0"
    and "scan_last (scan_step truthy c) (b0, []) xs = Inr (b, out)"
  shows "batchBy truthy c (xs @ ys) =
           (case scan_last (scan_step truthy c) (b, out) ys of
              Inl (x, _, out') \<Rightarrow> \<lparr>written = out', status = Error_escaped x\<rparr>
            | Inr (last_batch, out') \<Rightarrow>
                (case end_fn c last_batch of
                   Inl x \<Rightarrow> \<lparr>written = out', status = Error_escaped x\<rparr>
                 | Inr p \<Rightarrow> \<lparr>written = push_if truthy p out', status = Stream_ended\<rparr>))"
  using assms by (simp add: batchBy_def scan_last_append)

subsection \<open>Properties of the transform\<close>

text \<open>
  C3. Refinement of section 4.2 of the specification: when every value the policy
  pushes is truthy, \<open>batchBy\<close> writes exactly the specification's emissions, in
  order (at most one per \<open>forEachEntry\<close> call, then the one of \<open>end\<close>), and ends
  the output stream.
\<close>

theorem batchBy_refines_spec:
  assumes "\<forall>b e v. batch_to_push (pure_forEachEntry c b e) = Some v \<longrightarrow> truthy v"
    and "\<forall>b v. pure_end c b = Some v \<longrightarrow> truthy v"
  shows "batchBy truthy (lift_control c) xs =
           \<lparr>written = spec_batchBy c xs, status = Stream_ended\<rparr>"
proof -
  have "\<forall>v \<in> set (snd (spec_fold c b ys)). truthy v" for b ys
    using assms(1)
    by (induction ys arbitrary: b) (auto split: option.splits)
  moreover have "\<forall>v \<in> set (opt_list (pure_end c b)). truthy v" for b
    using assms(2) by (cases "pure_end c b") auto
  ultimately have "filter truthy (spec_batchBy c xs) = spec_batchBy c xs"
    by (simp add: spec_batchBy_proj)
  then show ?thesis by (simp add: batchBy_lift)
qed

theorem batchBy_refines_spec_witness:
  "batchBy object_truthy
     (lift_control \<lparr>pure_beginWith = (0::nat),
                    pure_forEachEntry = (\<lambda>b e. \<lparr>batch_to_update = b + e,
                                                   batch_to_push = (if even e then Some e else None)\<rparr>),
                    pure_end = (\<lambda>b. Some b)\<rparr>) [1, 2, 4::nat]
   = \<lparr>written = [2, 4, 7], status = (Stream_ended :: unit bb_status)\<rparr>"
proof -
  let ?c = "\<lparr>pure_beginWith = (0::nat),
             pure_forEachEntry = (\<lambda>b e. \<lparr>batch_to_update = b + e,
                                            batch_to_push = (if even e then Some e else None)\<rparr>),
             pure_end = (\<lambda>b. Some b)\<rparr>"
  have "batchBy object_truthy (lift_control ?c) [1, 2, 4::nat] =
          \<lparr>written = spec_batchBy ?c [1, 2, 4], status = (Stream_ended :: unit bb_status)\<rparr>"
    by (rule batchBy_refines_spec) simp_all
  then show ?thesis by (simp add: spec_batchBy_def)
qed

text \<open>
  C5. Failure of \<open>forEachEntry\<close>: if the policy throws on an entry, the values
  written for the entries before it stay written and nothing else is: the run
  stops there, \<open>end\<close> is not called (the result does not depend on \<open>end_fn\<close>),
  the later entries are not read, the exception escapes, and \<open>output_stream\<close>
  is not ended.
\<close>

theorem batchBy_entry_throws:
  assumes "beginWith c = Inr b0"
    and "scan_last (scan_step truthy c) (b0, []) xs = Inr (b, out)"
    and "forEachEntry c b e = Inl x"
  shows "batchBy truthy c (xs @ e # ys) = \<lparr>written = out, status = Error_escaped x\<rparr>"
  using batchBy_prefix_error [OF assms(1,2), of "e # ys"] assms(3)
  by (simp add: scan_step_Inl)

theorem batchBy_entry_throws_witness:
  "beginWith \<lparr>beginWith = Inr (0::nat),
              forEachEntry = (\<lambda>b e. if e = (3::nat) then Inl ''boom''
                                      else Inr \<lparr>batch_to_update = b + e, batch_to_push = Some e\<rparr>),
              end_fn = (\<lambda>b. Inr (Some b))\<rparr> = Inr 0
   \<and> scan_last (scan_step object_truthy
        \<lparr>beginWith = Inr (0::nat),
         forEachEntry = (\<lambda>b e. if e = (3::nat) then Inl ''boom''
                                 else Inr \<lparr>batch_to_update = b + e, batch_to_push = Some e\<rparr>),
         end_fn = (\<lambda>b. Inr (Some b))\<rparr>) (0, []) [1, 2] = Inr (3, [1, 2])
   \<and> batchBy object_truthy
        \<lparr>beginWith = Inr (0::nat),
         forEachEntry = (\<lambda>b e. if e = (3::nat) then Inl ''boom''
                                 else Inr \<lparr>batch_to_update = b + e, batch_to_push = Some e\<rparr>),
         end_fn = (\<lambda>b. Inr (Some b))\<rparr> ([1, 2] @ 3 # [4])
       = \<lparr>written = [1, 2], status = Error_escaped ''boom''\<rparr>"
proof -
  let ?c = "\<lparr>beginWith = Inr (0::nat),
             forEachEntry = (\<lambda>b e. if e = (3::nat) then Inl ''boom''
                                     else Inr \<lparr>batch_to_update = b + e, batch_to_push = Some e\<rparr>),
             end_fn = (\<lambda>b. Inr (Some b))\<rparr>"
  have h1: "beginWith ?c = Inr 0" by simp
  have h2: "scan_last (scan_step object_truthy ?c) (0, []) [1, 2] = Inr (3, [1, 2])"
    by (simp add: scan_step_def push_if_def)
  have h3: "forEachEntry ?c 3 3 = Inl ''boom''" by simp
  show ?thesis
    using h1 h2 batchBy_entry_throws [OF h1 h2 h3, of "[4]"] by simp
qed

text \<open>
  C24. Failure of \<open>end\<close>: the values written for the entries stay written, the push
  of \<open>end\<close> is not written, the exception escapes and \<open>output_stream\<close> is not
  ended.
\<close>

theorem batchBy_end_throws:
  assumes "beginWith c = Inr b0"
    and "scan_last (scan_step truthy c) (b0, []) xs = Inr (b, out)"
    and "end_fn c b = Inl x"
  shows "batchBy truthy c xs = \<lparr>written = out, status = Error_escaped x\<rparr>"
  using assms by (simp add: batchBy_def)

theorem batchBy_end_throws_witness:
  "beginWith \<lparr>beginWith = Inr (0::nat),
              forEachEntry = (\<lambda>b e. Inr \<lparr>batch_to_update = b + e, batch_to_push = Some e\<rparr>),
              end_fn = (\<lambda>b. Inl ''end failed'')\<rparr> = Inr 0
   \<and> batchBy object_truthy
        \<lparr>beginWith = Inr (0::nat),
         forEachEntry = (\<lambda>b e. Inr \<lparr>batch_to_update = b + e, batch_to_push = Some e\<rparr>),
         end_fn = (\<lambda>b. Inl ''end failed'')\<rparr> [5, 6]
       = \<lparr>written = [5, 6], status = Error_escaped ''end failed''\<rparr>"
proof -
  let ?c = "\<lparr>beginWith = Inr (0::nat),
             forEachEntry = (\<lambda>b e. Inr \<lparr>batch_to_update = b + e, batch_to_push = Some e\<rparr>),
             end_fn = (\<lambda>b. Inl ''end failed'')\<rparr>"
  have h1: "beginWith ?c = Inr 0" by simp
  have h2: "scan_last (scan_step object_truthy ?c) (0, []) [5, 6] = Inr (11, [5, 6])"
    by (simp add: scan_step_def push_if_def)
  have h3: "end_fn ?c 11 = Inl ''end failed''" by simp
  show ?thesis using batchBy_end_throws [OF h1 h2 h3] by simp
qed

text \<open>
  C15. Bound on the output: whatever the policy does, including throwing, a run
  writes at most one value per entry plus one for \<open>end\<close>.
\<close>

theorem batchBy_written_bound:
  "length (written (batchBy truthy c xs)) \<le> Suc (length xs)"
proof (cases "beginWith c")
  case (Inl x)
  then show ?thesis by (simp add: batchBy_def)
next
  case (Inr b0)
  show ?thesis
  proof (cases "scan_last (scan_step truthy c) (b0, []) xs")
    case (Inl r)
    obtain x b' out' where r: "r = (x, b', out')" by (cases r) auto
    from Inl r scan_last_error_extends [of truthy c b0 "[]" xs x b' out']
    have "length out' \<le> length xs" by auto
    with Inr Inl r show ?thesis by (simp add: batchBy_def)
  next
    case (Inr r)
    obtain b' out' where r: "r = (b', out')" by (cases r) auto
    from Inr r scan_last_extends [of truthy c b0 "[]" xs b' out']
    have len: "length out' \<le> length xs" by auto
    have "length (push_if truthy p out') \<le> Suc (length out')" for p
      using length_filter_opt_list_le [of truthy p] by (simp add: push_if_filter)
    with len \<open>beginWith c = Inr b0\<close> Inr r show ?thesis
      by (auto simp: batchBy_def split: sum.split intro: le_trans)
  qed
qed

text \<open>
  C19. Divergence from section 4.2: the code tests \<open>if (result.batch_to_push)\<close> and
  \<open>result.batch_to_push &&\<close> (lines 14 and 22), so for every policy and input a
  falsy value that the specification emits (a present push, such as the number
  \<open>0\<close>) is not written, and the code's output differs from the specification's.
\<close>

theorem batchBy_drops_falsy:
  assumes "v \<in> set (spec_batchBy c xs)" and "\<not> truthy v"
  shows "v \<notin> set (written (batchBy truthy (lift_control c) xs))
         \<and> written (batchBy truthy (lift_control c) xs) \<noteq> spec_batchBy c xs"
  using assms by (auto simp: batchBy_lift filter_id_conv)

theorem batchBy_drops_falsy_witness:
  "0 \<notin> set (written (batchBy int_truthy
     (lift_control \<lparr>pure_beginWith = (),
                    pure_forEachEntry = (\<lambda>b e. \<lparr>batch_to_update = (), batch_to_push = Some e\<rparr>),
                    pure_end = (\<lambda>b. None)\<rparr>) [0, 1 :: int] :: (_, unit) bb_run))"
proof -
  let ?c = "\<lparr>pure_beginWith = (),
             pure_forEachEntry = (\<lambda>b e. \<lparr>batch_to_update = (), batch_to_push = Some e\<rparr>),
             pure_end = (\<lambda>b. None)\<rparr> :: (unit, int, int) pure_control"
  have h1: "0 \<in> set (spec_batchBy ?c [0, 1])" by (simp add: spec_batchBy_proj)
  have h2: "\<not> int_truthy 0" by (simp add: int_truthy_def)
  from batchBy_drops_falsy [where v = 0 and truthy = int_truthy, OF h1 h2] show ?thesis by (rule conjunct1)
qed

end
