(* ===== verification/SamePattern.thy ===== *)
theory SamePattern
  imports BatchBy
begin

text \<open>
  The policy \<open>samePattern({extractPattern, same})\<close> of \<open>highland-batch-by.ts\<close>
  (lines 33--80): a \<open>Control\<close> whose batch is \<open>TBatchSamePattern\<close>, the pattern
  accumulated so far (\<open>null\<close> before the first entry) and the items. Patterns are
  \<open>'p nullable\<close>: the code tests \<open>accumulate_pattern === null\<close>, and a pattern
  extracted from an entry may itself be \<open>null\<close>. The callbacks \<open>extractPattern\<close>
  and \<open>same\<close> are the caller's functions, taken as pure; the policy itself never
  throws, so it is a \<open>pure_control\<close>, and the transform runs it through
  \<open>lift_control\<close>.

  The lemmas show that no entry is lost, duplicated or reordered, what the empty
  input gives, and, for an equivalence \<open>same\<close> and patterns that are never
  \<open>null\<close>, that consecutive batches written have patterns that are not the same.
\<close>

record ('p, 'e) batch_same_pattern =
  accumulate_pattern :: "'p nullable"
  items :: "'e list"

record ('e, 'p) pattern_config =
  extractPattern :: "'e \<Rightarrow> 'p nullable \<Rightarrow> 'p nullable"
  same :: "'p nullable \<Rightarrow> 'p nullable \<Rightarrow> bool"

type_synonym ('p, 'e) sp_batch = "('p, 'e) batch_same_pattern"

definition samePattern_beginWith :: "('p, 'e) sp_batch" where
  "samePattern_beginWith = \<lparr>accumulate_pattern = None, items = []\<rparr>"

definition samePattern_forEachEntry ::
  "('e, 'p) pattern_config \<Rightarrow> ('p, 'e) sp_batch \<Rightarrow> 'e \<Rightarrow> (('p, 'e) sp_batch, ('p, 'e) sp_batch) each_result" where
  "samePattern_forEachEntry cfg batch entry =
     (let current_pattern = extractPattern cfg entry (accumulate_pattern batch)
      in if accumulate_pattern batch = None \<or> same cfg (accumulate_pattern batch) current_pattern
         then \<lparr>batch_to_update = \<lparr>accumulate_pattern = current_pattern, items = items batch @ [entry]\<rparr>,
               batch_to_push = None\<rparr>
         else \<lparr>batch_to_update = \<lparr>accumulate_pattern = current_pattern, items = [entry]\<rparr>,
               batch_to_push = Some \<lparr>accumulate_pattern = accumulate_pattern batch, items = items batch\<rparr>\<rparr>)"

definition samePattern_end :: "('p, 'e) sp_batch \<Rightarrow> ('p, 'e) sp_batch nullable" where
  "samePattern_end last_batch =
     Some \<lparr>accumulate_pattern = accumulate_pattern last_batch, items = items last_batch\<rparr>"

definition samePattern :: "('e, 'p) pattern_config \<Rightarrow> (('p, 'e) sp_batch, 'e, ('p, 'e) sp_batch) pure_control" where
  "samePattern cfg =
     \<lparr>pure_beginWith = samePattern_beginWith,
      pure_forEachEntry = samePattern_forEachEntry cfg,
      pure_end = samePattern_end\<rparr>"

text \<open>
  The invariant of the fold, for patterns that are never \<open>null\<close>: the pattern
  of the batch in progress is \<open>null\<close> only before anything was pushed, no pushed
  batch has a \<open>null\<close> pattern, and each batch, the one in progress included, has
  a pattern that is not the same as the one before it.
\<close>

definition sp_inv :: "('e, 'p) pattern_config \<Rightarrow> ('p, 'e) sp_batch list \<Rightarrow> ('p, 'e) sp_batch \<Rightarrow> bool" where
  "sp_inv cfg ps b \<longleftrightarrow>
     (accumulate_pattern b = None \<longrightarrow> ps = [])
     \<and> (\<forall>p \<in> set ps. accumulate_pattern p \<noteq> None)
     \<and> successively (\<lambda>p q. \<not> same cfg (accumulate_pattern p) (accumulate_pattern q)) (ps @ [b])"

text \<open>
  The shape section 3 of the specification gives \<open>TBatchSamePattern\<close>: the pattern
  is \<open>null\<close> exactly in the initial state, the one with no items.
\<close>

definition batch_shape :: "('p, 'e) sp_batch \<Rightarrow> bool" where
  "batch_shape b \<longleftrightarrow> (accumulate_pattern b = None \<longleftrightarrow> items b = [])"

subsection \<open>Lemmas on the operations\<close>

lemma samePattern_sel [simp, batch_simps]:
  "pure_beginWith (samePattern cfg) = samePattern_beginWith"
  "pure_forEachEntry (samePattern cfg) = samePattern_forEachEntry cfg"
  "pure_end (samePattern cfg) = samePattern_end"
  by (simp_all add: samePattern_def)

lemma samePattern_end_Some [simp, batch_simps]: "samePattern_end b = Some b"
  by (simp add: samePattern_end_def)

text \<open>The two branches of \<open>forEachEntry\<close> (lines 50--57 and 58--69).\<close>

lemma samePattern_forEachEntry_extend [batch_simps]:
  assumes "accumulate_pattern b = None \<or> same cfg (accumulate_pattern b) (extractPattern cfg e (accumulate_pattern b))"
  shows "samePattern_forEachEntry cfg b e =
           \<lparr>batch_to_update = \<lparr>accumulate_pattern = extractPattern cfg e (accumulate_pattern b),
                               items = items b @ [e]\<rparr>,
            batch_to_push = None\<rparr>"
  using assms by (simp add: samePattern_forEachEntry_def Let_def)

lemma samePattern_forEachEntry_split [batch_simps]:
  assumes "accumulate_pattern b \<noteq> None"
    and "\<not> same cfg (accumulate_pattern b) (extractPattern cfg e (accumulate_pattern b))"
  shows "samePattern_forEachEntry cfg b e =
           \<lparr>batch_to_update = \<lparr>accumulate_pattern = extractPattern cfg e (accumulate_pattern b),
                               items = [e]\<rparr>,
            batch_to_push = Some b\<rparr>"
  using assms by (simp add: samePattern_forEachEntry_def Let_def)

text \<open>
  The fold keeps every entry: the items of the batches pushed, then those of the
  batch in progress, are the items it started with followed by the input.
\<close>

lemma samePattern_fold_items:
  "concat (map items (snd (spec_fold (samePattern cfg) b xs))) @ items (fst (spec_fold (samePattern cfg) b xs))
     = items b @ xs"
proof (induction xs arbitrary: b)
  case Nil
  then show ?case by simp
next
  case (Cons e es)
  show ?case
  proof (cases "accumulate_pattern b = None \<or> same cfg (accumulate_pattern b) (extractPattern cfg e (accumulate_pattern b))")
    case True
    with Cons.IH show ?thesis by (simp add: samePattern_forEachEntry_extend)
  next
    case False
    with Cons.IH show ?thesis by (simp add: samePattern_forEachEntry_split)
  qed
qed

text \<open>Both branches set the pattern to the one extracted from the entry.\<close>

lemma samePattern_forEachEntry_acc [simp, batch_simps]:
  "accumulate_pattern (batch_to_update (samePattern_forEachEntry cfg b e)) =
     extractPattern cfg e (accumulate_pattern b)"
  by (simp add: samePattern_forEachEntry_def Let_def)

text \<open>A batch is pushed only from the second branch, where its pattern is not \<open>null\<close>.\<close>

lemma samePattern_pushes_not_null:
  "\<forall>p \<in> set (snd (spec_fold (samePattern cfg) b xs)). accumulate_pattern p \<noteq> None"
proof (induction xs arbitrary: b)
  case (Cons e es)
  have "\<forall>p \<in> set (opt_list (batch_to_push (samePattern_forEachEntry cfg b e))). accumulate_pattern p \<noteq> None"
    by (simp add: samePattern_forEachEntry_def Let_def)
  with Cons.IH [of "batch_to_update (samePattern_forEachEntry cfg b e)"] show ?case
    by (simp del: in_opt_list add: ball_Un)
qed simp

lemma samePattern_last_not_null:
  "\<forall>e a. extractPattern cfg e a \<noteq> None \<Longrightarrow> xs \<noteq> [] \<Longrightarrow>
     accumulate_pattern (fst (spec_fold (samePattern cfg) b xs)) \<noteq> None"
proof (induction xs arbitrary: b)
  case (Cons e es)
  then show ?case by (cases es) auto
qed simp

lemma samePattern_written:
  "written (batchBy object_truthy (lift_control (samePattern cfg)) xs) =
     snd (spec_fold (samePattern cfg) samePattern_beginWith xs) @
       [fst (spec_fold (samePattern cfg) samePattern_beginWith xs)]"
  by (simp add: batchBy_lift spec_batchBy_proj)

text \<open>From a batch with items, every batch pushed and the final one have items.\<close>

lemma samePattern_fold_nonempty:
  "items b \<noteq> [] \<Longrightarrow>
     (\<forall>p \<in> set (snd (spec_fold (samePattern cfg) b xs)). items p \<noteq> [])
     \<and> items (fst (spec_fold (samePattern cfg) b xs)) \<noteq> []"
proof (induction xs arbitrary: b)
  case (Cons e es)
  let ?r = "samePattern_forEachEntry cfg b e"
  have "items (batch_to_update ?r) \<noteq> []" and "\<forall>p \<in> set (opt_list (batch_to_push ?r)). items p \<noteq> []"
    using Cons.prems by (auto simp: samePattern_forEachEntry_def Let_def)
  with Cons.IH [of "batch_to_update ?r"] show ?case by (auto simp del: in_opt_list)
qed simp

text \<open>The first batch written from a batch in progress starts with that batch's items.\<close>

lemma samePattern_head_prefix:
  "prefix (items b)
     (items (hd (snd (spec_fold (samePattern cfg) b xs) @ [fst (spec_fold (samePattern cfg) b xs)])))"
proof (induction xs arbitrary: b)
  case (Cons e es)
  show ?case
  proof (cases "accumulate_pattern b = None \<or> same cfg (accumulate_pattern b) (extractPattern cfg e (accumulate_pattern b))")
    case True
    let ?b' = "\<lparr>accumulate_pattern = extractPattern cfg e (accumulate_pattern b), items = items b @ [e]\<rparr>"
    have "prefix (items b) (items b @ [e])" by simp
    moreover have "prefix (items b @ [e])
        (items (hd (snd (spec_fold (samePattern cfg) ?b' es) @ [fst (spec_fold (samePattern cfg) ?b' es)])))"
      using Cons.IH [of ?b'] by simp
    ultimately have "prefix (items b)
        (items (hd (snd (spec_fold (samePattern cfg) ?b' es) @ [fst (spec_fold (samePattern cfg) ?b' es)])))"
      by (rule prefix_order.trans)
    with True show ?thesis by (simp add: samePattern_forEachEntry_extend)
  next
    case False
    then show ?thesis by (simp add: samePattern_forEachEntry_split)
  qed
qed simp

text \<open>
  When \<open>same\<close> holds only of equal patterns, the first batch written from a batch in
  progress with a pattern keeps that pattern.
\<close>

lemma samePattern_head_pattern:
  assumes "\<forall>a b. same cfg a b \<longrightarrow> a = b" and "accumulate_pattern b \<noteq> None"
  shows "accumulate_pattern (hd (snd (spec_fold (samePattern cfg) b xs) @ [fst (spec_fold (samePattern cfg) b xs)]))
           = accumulate_pattern b"
  using assms(2)
proof (induction xs arbitrary: b)
  case (Cons e es)
  show ?case
  proof (cases "same cfg (accumulate_pattern b) (extractPattern cfg e (accumulate_pattern b))")
    case True
    with assms(1) have "accumulate_pattern b = extractPattern cfg e (accumulate_pattern b)" by blast
    then have "extractPattern cfg e (accumulate_pattern b) = accumulate_pattern b" by (rule sym)
    with True Cons.prems Cons.IH [of "\<lparr>accumulate_pattern = accumulate_pattern b, items = items b @ [e]\<rparr>"]
    show ?thesis by (simp add: samePattern_forEachEntry_extend)
  next
    case False
    with Cons.prems show ?thesis by (simp add: samePattern_forEachEntry_split)
  qed
qed simp

subsection \<open>Properties of the policy\<close>

text \<open>
  C1. No entry is lost, duplicated or reordered: for any \<open>extractPattern\<close> and any
  \<open>same\<close>, the items of the batches written, in the order they are written, are the
  input.
\<close>

theorem samePattern_conservation:
  "concat (map items (written (batchBy object_truthy (lift_control (samePattern cfg)) xs))) = xs"
  using samePattern_fold_items [of cfg samePattern_beginWith xs]
  by (simp add: samePattern_written samePattern_beginWith_def)

text \<open>
  C6. Empty batches (section 8 of the specification and its open question in
  section 9): for any \<open>extractPattern\<close> and \<open>same\<close>, the batches written with no
  items are exactly the initial batch \<open>{accumulate_pattern: null, items: []}\<close> when
  the input is empty, from the \<open>end\<close> call, and none otherwise.
\<close>

theorem samePattern_empty_batches:
  "filter (\<lambda>b. items b = []) (written (batchBy object_truthy (lift_control (samePattern cfg)) xs)) =
     (if xs = [] then [\<lparr>accumulate_pattern = None, items = []\<rparr>] else [])"
proof (cases xs)
  case Nil
  then show ?thesis by (simp add: samePattern_written samePattern_beginWith_def)
next
  case (Cons e es)
  let ?b = "\<lparr>accumulate_pattern = extractPattern cfg e None, items = [e]\<rparr>"
  have first: "samePattern_forEachEntry cfg samePattern_beginWith e = \<lparr>batch_to_update = ?b, batch_to_push = None\<rparr>"
    by (simp add: samePattern_forEachEntry_def samePattern_beginWith_def)
  from samePattern_fold_nonempty [of ?b cfg es]
  have "\<forall>p \<in> set (snd (spec_fold (samePattern cfg) ?b es) @ [fst (spec_fold (samePattern cfg) ?b es)]). items p \<noteq> []"
    by auto
  with Cons first show ?thesis
    by (simp add: samePattern_written filter_empty_conv)
qed

subsection \<open>Grouping for an equivalence\<close>

text \<open>
  The hypotheses under which the specification promises its grouping: \<open>same\<close> is
  symmetric and transitive, and \<open>extractPattern\<close> never returns \<open>null\<close>.
\<close>

lemma sp_inv_step:
  assumes sym: "\<forall>a b. same cfg a b \<longrightarrow> same cfg b a"
    and trans: "\<forall>a b c. same cfg a b \<longrightarrow> same cfg b c \<longrightarrow> same cfg a c"
    and nn: "\<forall>e a. extractPattern cfg e a \<noteq> None"
    and inv: "sp_inv cfg ps b"
  shows "sp_inv cfg (ps @ opt_list (batch_to_push (samePattern_forEachEntry cfg b e)))
                    (batch_to_update (samePattern_forEachEntry cfg b e))"
proof -
  let ?cur = "extractPattern cfg e (accumulate_pattern b)"
  let ?R = "\<lambda>p q. \<not> same cfg (accumulate_pattern p) (accumulate_pattern q)"
  have cur: "?cur \<noteq> None" using nn by blast
  show ?thesis
  proof (cases "accumulate_pattern b = None \<or> same cfg (accumulate_pattern b) ?cur")
    case True
    then have upd: "samePattern_forEachEntry cfg b e =
           \<lparr>batch_to_update = \<lparr>accumulate_pattern = ?cur, items = items b @ [e]\<rparr>, batch_to_push = None\<rparr>"
      by (rule samePattern_forEachEntry_extend)
    show ?thesis
    proof (cases ps rule: rev_cases)
      case Nil
      with cur show ?thesis by (simp add: upd sp_inv_def)
    next
      case (snoc qs q)
      with inv have nb: "accumulate_pattern b \<noteq> None" and Rqb: "?R q b"
        by (auto simp: sp_inv_def successively_append_iff)
      with True have "same cfg (accumulate_pattern b) ?cur" by simp
      with Rqb sym trans have "?R q \<lparr>accumulate_pattern = ?cur, items = items b @ [e]\<rparr>"
        by (simp (no_asm_use)) blast
      with inv snoc cur show ?thesis
        by (simp add: upd sp_inv_def successively_append_iff)
    qed
  next
    case False
    then have "accumulate_pattern b \<noteq> None" "\<not> same cfg (accumulate_pattern b) ?cur" by simp_all
    then have upd: "samePattern_forEachEntry cfg b e =
           \<lparr>batch_to_update = \<lparr>accumulate_pattern = ?cur, items = [e]\<rparr>, batch_to_push = Some b\<rparr>"
      by (rule samePattern_forEachEntry_split)
    from False inv cur show ?thesis
      by (simp add: upd sp_inv_def successively_append_iff)
  qed
qed

lemma sp_inv_fold:
  assumes sym: "\<forall>a b. same cfg a b \<longrightarrow> same cfg b a"
    and trans: "\<forall>a b c. same cfg a b \<longrightarrow> same cfg b c \<longrightarrow> same cfg a c"
    and nn: "\<forall>e a. extractPattern cfg e a \<noteq> None"
  shows "sp_inv cfg ps b \<Longrightarrow>
           sp_inv cfg (ps @ snd (spec_fold (samePattern cfg) b xs)) (fst (spec_fold (samePattern cfg) b xs))"
proof (induction xs arbitrary: ps b)
  case Nil
  then show ?case by simp
next
  case (Cons e es)
  from sp_inv_step [OF sym trans nn Cons.prems, of e]
  have "sp_inv cfg (ps @ opt_list (batch_to_push (samePattern_forEachEntry cfg b e)))
                   (batch_to_update (samePattern_forEachEntry cfg b e))" .
  from Cons.IH [OF this] show ?case by simp
qed

lemma samePattern_written_inv:
  assumes "\<forall>a b. same cfg a b \<longrightarrow> same cfg b a"
    and "\<forall>a b c. same cfg a b \<longrightarrow> same cfg b c \<longrightarrow> same cfg a c"
    and "\<forall>e a. extractPattern cfg e a \<noteq> None"
  shows "sp_inv cfg (snd (spec_fold (samePattern cfg) samePattern_beginWith xs))
                    (fst (spec_fold (samePattern cfg) samePattern_beginWith xs))"
proof -
  have "sp_inv cfg [] samePattern_beginWith" by (simp add: sp_inv_def samePattern_beginWith_def)
  from sp_inv_fold [OF assms this, of xs] show ?thesis by simp
qed


text \<open>
  C10. Grouping (section 8 of the specification): when \<open>same\<close> is symmetric and
  transitive and \<open>extractPattern\<close> never returns \<open>null\<close>, no two consecutive
  batches written have patterns that are the \<open>same\<close>.
\<close>

theorem samePattern_grouping:
  assumes "\<forall>a b. same cfg a b \<longrightarrow> same cfg b a"
    and "\<forall>a b c. same cfg a b \<longrightarrow> same cfg b c \<longrightarrow> same cfg a c"
    and "\<forall>e a. extractPattern cfg e a \<noteq> None"
  shows "successively (\<lambda>p q. \<not> same cfg (accumulate_pattern p) (accumulate_pattern q))
           (written (batchBy object_truthy (lift_control (samePattern cfg)) xs))"
  using samePattern_written_inv [OF assms, of xs] by (simp add: samePattern_written sp_inv_def)

theorem samePattern_grouping_witness:
  "successively (\<lambda>p q. \<not> map_option even (accumulate_pattern p) = map_option even (accumulate_pattern q))
     (written (batchBy object_truthy
        (lift_control (samePattern \<lparr>extractPattern = (\<lambda>x _. Some (x::nat)),
                                     same = (\<lambda>a b. map_option even a = map_option even b)\<rparr>))
        [1, 3, 2, 4, 5] :: (_, unit) bb_run))
   \<and> written (batchBy object_truthy
        (lift_control (samePattern \<lparr>extractPattern = (\<lambda>x _. Some (x::nat)),
                                     same = (\<lambda>a b. map_option even a = map_option even b)\<rparr>))
        [1, 3, 2, 4, 5] :: (_, unit) bb_run)
     = [\<lparr>accumulate_pattern = Some 3, items = [1, 3]\<rparr>, \<lparr>accumulate_pattern = Some 4, items = [2, 4]\<rparr>,
        \<lparr>accumulate_pattern = Some 5, items = [5]\<rparr>]"
proof -
  let ?cfg = "\<lparr>extractPattern = (\<lambda>x _. Some (x::nat)),
              same = (\<lambda>a b. map_option even a = map_option even b)\<rparr>"
  have "successively (\<lambda>p q. \<not> same ?cfg (accumulate_pattern p) (accumulate_pattern q))
          (written (batchBy object_truthy (lift_control (samePattern ?cfg)) [1, 3, 2, 4, 5] :: (_, unit) bb_run))"
    by (rule samePattern_grouping) auto
  moreover have "written (batchBy object_truthy (lift_control (samePattern ?cfg)) [1, 3, 2, 4, 5] :: (_, unit) bb_run)
     = [\<lparr>accumulate_pattern = Some 3, items = [1, 3]\<rparr>, \<lparr>accumulate_pattern = Some 4, items = [2, 4]\<rparr>,
        \<lparr>accumulate_pattern = Some 5, items = [5]\<rparr>]"
    by (simp add: samePattern_written samePattern_forEachEntry_def samePattern_beginWith_def)
  ultimately show ?thesis by simp
qed

text \<open>
  C23. The pattern invariant of section 3 of the specification: when
  \<open>extractPattern\<close> never returns \<open>null\<close> and the input is not empty, no batch
  written has a \<open>null\<close> pattern.
\<close>

theorem samePattern_patterns_not_null:
  assumes "\<forall>e a. extractPattern cfg e a \<noteq> None" and "xs \<noteq> []"
  shows "\<forall>b \<in> set (written (batchBy object_truthy (lift_control (samePattern cfg)) xs)).
           accumulate_pattern b \<noteq> None"
  using samePattern_pushes_not_null [of cfg samePattern_beginWith xs]
    samePattern_last_not_null [OF assms, of samePattern_beginWith]
  by (auto simp: samePattern_written)

theorem samePattern_patterns_not_null_witness:
  "written (batchBy object_truthy
      (lift_control (samePattern \<lparr>extractPattern = (\<lambda>x _. Some (x::nat)), same = (=)\<rparr>)) [7, 7]
      :: (_, unit) bb_run) = [\<lparr>accumulate_pattern = Some 7, items = [7, 7]\<rparr>]
   \<and> list_all (\<lambda>b. accumulate_pattern b \<noteq> None)
      (written (batchBy object_truthy
        (lift_control (samePattern \<lparr>extractPattern = (\<lambda>x _. Some (x::nat)), same = (=)\<rparr>)) [7, 7]
        :: (_, unit) bb_run))"
proof -
  let ?cfg = "\<lparr>extractPattern = (\<lambda>x _. Some (x::nat)), same = (=)\<rparr>"
  have "\<forall>b \<in> set (written (batchBy object_truthy (lift_control (samePattern ?cfg)) [7, 7] :: (_, unit) bb_run)).
          accumulate_pattern b \<noteq> None"
    by (rule samePattern_patterns_not_null) simp_all
  moreover have "written (batchBy object_truthy (lift_control (samePattern ?cfg)) [7, 7] :: (_, unit) bb_run)
                   = [\<lparr>accumulate_pattern = Some 7, items = [7, 7]\<rparr>]"
    by (simp add: samePattern_written samePattern_forEachEntry_def samePattern_beginWith_def)
  ultimately show ?thesis by (simp add: list_all_iff)
qed

subsection \<open>The shape of the batches\<close>

lemma samePattern_fold_shape:
  assumes nn: "\<forall>e a. extractPattern cfg e a \<noteq> None"
  shows "batch_shape b \<Longrightarrow>
           (\<forall>p \<in> set (snd (spec_fold (samePattern cfg) b xs)). batch_shape p)
           \<and> batch_shape (fst (spec_fold (samePattern cfg) b xs))"
proof (induction xs arbitrary: b)
  case (Cons e es)
  let ?r = "samePattern_forEachEntry cfg b e"
  have "batch_shape (batch_to_update ?r)" and "\<forall>p \<in> set (opt_list (batch_to_push ?r)). batch_shape p"
    using Cons.prems nn by (auto simp: batch_shape_def samePattern_forEachEntry_def Let_def)
  with Cons.IH [of "batch_to_update ?r"] show ?case by (auto simp del: in_opt_list)
qed simp

text \<open>
  C8. Type of the output (section 3 of the specification): when
  \<open>extractPattern\<close> never returns \<open>null\<close>, every batch written has a \<open>null\<close>
  pattern exactly when it has no items; the only such batch is the one the empty
  input gives.
\<close>

theorem samePattern_batch_shape:
  assumes "\<forall>e a. extractPattern cfg e a \<noteq> None"
  shows "\<forall>b \<in> set (written (batchBy object_truthy (lift_control (samePattern cfg)) xs)).
           accumulate_pattern b = None \<longleftrightarrow> items b = []"
proof -
  have "batch_shape samePattern_beginWith" by (simp add: batch_shape_def samePattern_beginWith_def)
  from samePattern_fold_shape [OF assms this, of xs] show ?thesis
    by (auto simp: samePattern_written batch_shape_def)
qed

theorem samePattern_batch_shape_witness:
  "written (batchBy object_truthy
      (lift_control (samePattern \<lparr>extractPattern = (\<lambda>x _. Some (x::nat)), same = (=)\<rparr>)) [4, 4, 5]
      :: (_, unit) bb_run)
     = [\<lparr>accumulate_pattern = Some 4, items = [4, 4]\<rparr>, \<lparr>accumulate_pattern = Some 5, items = [5]\<rparr>]
   \<and> list_all (\<lambda>b. (accumulate_pattern b = None) = (items b = []))
      (written (batchBy object_truthy
        (lift_control (samePattern \<lparr>extractPattern = (\<lambda>x _. Some (x::nat)), same = (=)\<rparr>)) [4, 4, 5]
        :: (_, unit) bb_run))"
proof -
  let ?cfg = "\<lparr>extractPattern = (\<lambda>x _. Some (x::nat)), same = (=)\<rparr>"
  have "\<forall>b \<in> set (written (batchBy object_truthy (lift_control (samePattern ?cfg)) [4, 4, 5] :: (_, unit) bb_run)).
          accumulate_pattern b = None \<longleftrightarrow> items b = []"
    by (rule samePattern_batch_shape) simp
  moreover have "written (batchBy object_truthy (lift_control (samePattern ?cfg)) [4, 4, 5] :: (_, unit) bb_run)
     = [\<lparr>accumulate_pattern = Some 4, items = [4, 4]\<rparr>, \<lparr>accumulate_pattern = Some 5, items = [5]\<rparr>]"
    by (simp add: samePattern_written samePattern_forEachEntry_def samePattern_beginWith_def)
  ultimately show ?thesis by (simp add: list_all_iff)
qed

end
