(* ===== verification/SameProperty.thy ===== *)
theory SameProperty
  imports SamePattern
begin

text \<open>
  \<open>sameProperty(propName)\<close> and \<open>batchByProp(propName)\<close> of
  \<open>highland-batch-by.ts\<close> (lines 82--89 and 117): \<open>samePattern\<close> with the pattern
  \<open>x[propName]\<close> and \<open>===\<close> as \<open>same\<close>. Entries are JavaScript objects with
  primitive property values, as association lists from property names to values;
  reading a missing property gives \<open>undefined\<close>, which is not \<open>null\<close>. Numbers are
  the integral ones and \<open>NaN\<close>; strict equality \<open>===\<close> on these primitives is
  \<open>js_strict_eq\<close>: equality of HOL values, except that \<open>NaN\<close> equals nothing,
  not even itself.

  The abstract specification is \<open>group_runs\<close>: the input cut into maximal runs of
  consecutive entries with equal keys, written as a right fold. The main lemma is
  that \<open>batchByProp\<close> writes exactly these runs when every entry's property is a
  proper key (\<open>key_ok\<close>: neither \<open>null\<close> nor \<open>NaN\<close>); the grouping properties of the specification's section 8 follow from
  those of \<open>group_runs\<close>.
\<close>

datatype js_prim = JUndefined | JBool bool | JNum int | JNaN | JStr string

type_synonym js_object = "(string \<times> js_prim nullable) list"

text \<open>\<open>x[propName]\<close> (line 86).\<close>

definition get_prop :: "js_object \<Rightarrow> string \<Rightarrow> js_prim nullable" where
  "get_prop x propName = (case map_of x propName of None \<Rightarrow> Some JUndefined | Some v \<Rightarrow> v)"

text \<open>\<open>p1 === p2\<close> (line 87) on primitives and \<open>null\<close>: same type and value, \<open>NaN\<close> excepted.\<close>

definition js_strict_eq :: "js_prim nullable \<Rightarrow> js_prim nullable \<Rightarrow> bool" where
  "js_strict_eq p1 p2 \<longleftrightarrow> p1 = p2 \<and> p1 \<noteq> Some JNaN"

definition sameProperty :: "string \<Rightarrow> (js_object, js_prim) pattern_config" where
  "sameProperty propName =
     \<lparr>extractPattern = (\<lambda>x _. get_prop x propName), same = js_strict_eq\<rparr>"

definition batchByProp :: "string \<Rightarrow> js_object list \<Rightarrow> ((js_prim, js_object) sp_batch, 'x) bb_run" where
  "batchByProp propName = batchBy object_truthy (lift_control (samePattern (sameProperty propName)))"

subsection \<open>The abstract specification: maximal runs\<close>

text \<open>Put a run of key \<open>k\<close> in front of a list of runs, merging it with the first.\<close>

fun merge_run :: "'k \<times> 'e list \<Rightarrow> ('k \<times> 'e list) list \<Rightarrow> ('k \<times> 'e list) list" where
  "merge_run (k, g) [] = [(k, g)]"
| "merge_run (k, g) ((k', g') # rest) =
     (if k = k' then (k, g @ g') # rest else (k, g) # (k', g') # rest)"

fun group_runs :: "('e \<Rightarrow> 'k) \<Rightarrow> 'e list \<Rightarrow> ('k \<times> 'e list) list" where
  "group_runs f [] = []"
| "group_runs f (x # xs) = merge_run (f x, [x]) (group_runs f xs)"

text \<open>A key on which \<open>===\<close> is an equivalence and that is not the initial pattern.\<close>

definition key_ok :: "js_prim nullable \<Rightarrow> bool" where
  "key_ok v \<longleftrightarrow> v \<noteq> None \<and> v \<noteq> Some JNaN"

definition run_batch :: "'p nullable \<times> 'e list \<Rightarrow> ('p, 'e) sp_batch" where
  "run_batch r = \<lparr>accumulate_pattern = fst r, items = snd r\<rparr>"

text \<open>
  The well-formed outputs of \<open>batchByProp\<close>: a nonempty list of nonempty batches,
  each item carrying the batch's pattern, which is a proper key, neighbours with
  different patterns.
\<close>

definition batches_wf :: "string \<Rightarrow> (js_prim, js_object) sp_batch list \<Rightarrow> bool" where
  "batches_wf propName bs \<longleftrightarrow>
     bs \<noteq> []
     \<and> list_all (\<lambda>b. items b \<noteq> [] \<and> key_ok (accumulate_pattern b)
                    \<and> list_all (\<lambda>x. get_prop x propName = accumulate_pattern b) (items b)) bs
     \<and> successively (\<lambda>a b. accumulate_pattern a \<noteq> accumulate_pattern b) bs"

subsection \<open>Lemmas on the specification\<close>

lemma merge_run_concat [simp]: "concat (map snd (merge_run r rs)) = snd r @ concat (map snd rs)"
  by (induction r rs rule: merge_run.induct) auto

lemma merge_run_not_Nil [simp]: "merge_run r rs \<noteq> []"
  by (induction r rs rule: merge_run.induct) auto

lemma group_runs_concat [simp]: "concat (map snd (group_runs f xs)) = xs"
  by (induction xs) simp_all

lemma group_runs_Nil_iff [simp]: "group_runs f xs = [] \<longleftrightarrow> xs = []"
  by (cases xs) simp_all

lemma merge_run_head: "\<exists>g' rest. merge_run (k, g) rs = (k, g') # rest"
  by (cases rs) auto

text \<open>Every run is nonempty and its entries have its key.\<close>

definition run_ok :: "('e \<Rightarrow> 'k) \<Rightarrow> 'k \<times> 'e list \<Rightarrow> bool" where
  "run_ok f r \<longleftrightarrow> snd r \<noteq> [] \<and> (\<forall>x \<in> set (snd r). f x = fst r)"

lemma merge_run_ok:
  "\<forall>r' \<in> set rs. run_ok f r' \<Longrightarrow> run_ok f r \<Longrightarrow> \<forall>r' \<in> set (merge_run r rs). run_ok f r'"
  by (induction r rs rule: merge_run.induct) (auto simp: run_ok_def)

lemma group_runs_ok: "\<forall>r \<in> set (group_runs f xs). run_ok f r"
proof (induction xs)
  case (Cons x xs)
  have "run_ok f (f x, [x])" by (simp add: run_ok_def)
  with Cons.IH have "\<forall>r \<in> set (merge_run (f x, [x]) (group_runs f xs)). run_ok f r"
    by (rule merge_run_ok)
  then show ?case by simp
qed simp

lemma merge_run_successively:
  "successively (\<lambda>a b. fst a \<noteq> fst b) rs \<Longrightarrow> successively (\<lambda>a b. fst a \<noteq> fst b) (merge_run r rs)"
  by (induction r rs rule: merge_run.induct) (auto simp: successively_Cons)

lemma group_runs_adjacent:
  "successively (\<lambda>a b. fst a \<noteq> fst b) (group_runs f xs)"
  by (induction xs) (simp_all add: merge_run_successively)

lemma merge_run_same_key: "merge_run (k, g) (merge_run (k, g') rs) = merge_run (k, g @ g') rs"
  by (cases rs) auto

lemma merge_run_other_key:
  "k \<noteq> k' \<Longrightarrow> merge_run (k, g) (merge_run (k', g') rs) = (k, g) # merge_run (k', g') rs"
  using merge_run_head [of k' g' rs] by auto

lemma group_runs_same_key:
  "\<forall>x \<in> set xs. f x = k \<Longrightarrow> xs \<noteq> [] \<Longrightarrow> group_runs f xs = [(k, xs)]"
proof (induction xs)
  case (Cons x xs)
  then show ?case by (cases xs) simp_all
qed simp

lemma group_runs_distinct_keys:
  "successively (\<lambda>x y. f x \<noteq> f y) xs \<Longrightarrow> group_runs f xs = map (\<lambda>x. (f x, [x])) xs"
  by (induction xs rule: induct_list012) simp_all

lemma group_runs_run_append:
  "g \<noteq> [] \<Longrightarrow> \<forall>x \<in> set g. f x = k \<Longrightarrow> group_runs f (g @ ys) = merge_run (k, g) (group_runs f ys)"
proof (induction g)
  case (Cons x g)
  then show ?case by (cases g) (simp_all add: merge_run_same_key)
qed simp

text \<open>Cutting the concatenation of well-formed runs gives the runs back.\<close>

lemma group_runs_of_runs:
  "\<forall>r \<in> set rs. run_ok f r \<Longrightarrow> successively (\<lambda>a b. fst a \<noteq> fst b) rs \<Longrightarrow>
     group_runs f (concat (map snd rs)) = rs"
proof (induction rs)
  case (Cons r rs)
  obtain k g where r: "r = (k, g)" by (cases r) auto
  with Cons.prems have "g \<noteq> []" "\<forall>x \<in> set g. f x = k" by (auto simp: run_ok_def)
  have "group_runs f (concat (map snd (r # rs))) = merge_run (k, g) rs"
  proof -
    have "successively (\<lambda>a b. fst a \<noteq> fst b) rs" using Cons.prems(2) by (cases rs) auto
    with Cons.IH Cons.prems(1) have "group_runs f (concat (map snd rs)) = rs" by simp
    with r show ?thesis using group_runs_run_append [OF \<open>g \<noteq> []\<close> \<open>\<forall>x \<in> set g. f x = k\<close>] by simp
  qed
  with Cons.prems r show ?case by (cases rs) auto
qed simp

lemma run_batch_fields [simp]: "run_batch (accumulate_pattern b, items b) = b"
  by (simp add: run_batch_def)

subsection \<open>The policy computes the runs\<close>

text \<open>
  From a batch in progress whose pattern is a proper key, the pushes of the
  fold and the final batch are the runs of the input, the first merged with the
  batch in progress.
\<close>

lemma sameProperty_fold_runs:
  assumes "key_ok (accumulate_pattern b)" and "\<forall>x \<in> set xs. key_ok (get_prop x propName)"
  shows "snd (spec_fold (samePattern (sameProperty propName)) b xs) @
           [fst (spec_fold (samePattern (sameProperty propName)) b xs)]
         = map run_batch (merge_run (accumulate_pattern b, items b) (group_runs (\<lambda>x. get_prop x propName) xs))"
  using assms
proof (induction xs arbitrary: b)
  case Nil
  then show ?case by simp
next
  case (Cons e es)
  let ?p = "get_prop e propName"
  from Cons.prems have p: "key_ok ?p" and es: "\<forall>x \<in> set es. key_ok (get_prop x propName)" by auto
  show ?case
  proof (cases "accumulate_pattern b = ?p")
    case True
    with p have "samePattern_forEachEntry (sameProperty propName) b e =
                 \<lparr>batch_to_update = \<lparr>accumulate_pattern = ?p, items = items b @ [e]\<rparr>, batch_to_push = None\<rparr>"
      by (simp add: samePattern_forEachEntry_extend sameProperty_def js_strict_eq_def key_ok_def)
    with Cons.IH [of "\<lparr>accumulate_pattern = ?p, items = items b @ [e]\<rparr>"] p es True show ?thesis
      by (simp add: merge_run_same_key)
  next
    case False
    with Cons.prems(1) have "samePattern_forEachEntry (sameProperty propName) b e =
                 \<lparr>batch_to_update = \<lparr>accumulate_pattern = ?p, items = [e]\<rparr>, batch_to_push = Some b\<rparr>"
      by (simp add: samePattern_forEachEntry_split sameProperty_def js_strict_eq_def key_ok_def)
    with Cons.IH [of "\<lparr>accumulate_pattern = ?p, items = [e]\<rparr>"] p es False show ?thesis
      by (simp add: merge_run_other_key)
  qed
qed

text \<open>From a batch in progress with pattern \<open>NaN\<close>, every \<open>NaN\<close> entry pushes the batch before it.\<close>

lemma sameProperty_fold_nan:
  assumes "accumulate_pattern b = Some JNaN" and "\<forall>x \<in> set xs. get_prop x propName = Some JNaN"
  shows "snd (spec_fold (samePattern (sameProperty propName)) b xs) @
           [fst (spec_fold (samePattern (sameProperty propName)) b xs)]
         = b # map (\<lambda>x. \<lparr>accumulate_pattern = Some JNaN, items = [x]\<rparr>) xs"
  using assms
proof (induction xs arbitrary: b)
  case (Cons e es)
  then have "samePattern_forEachEntry (sameProperty propName) b e =
               \<lparr>batch_to_update = \<lparr>accumulate_pattern = Some JNaN, items = [e]\<rparr>, batch_to_push = Some b\<rparr>"
    by (simp add: samePattern_forEachEntry_split sameProperty_def js_strict_eq_def)
  with Cons.IH [of "\<lparr>accumulate_pattern = Some JNaN, items = [e]\<rparr>"] Cons.prems show ?case by simp
qed simp

lemma batchByProp_written_Nil:
  "written (batchByProp propName []) = [\<lparr>accumulate_pattern = None, items = []\<rparr>]"
  by (simp add: batchByProp_def samePattern_written samePattern_beginWith_def)

lemma batchByProp_written_runs:
  assumes "\<forall>x \<in> set xs. key_ok (get_prop x propName)" and "xs \<noteq> []"
  shows "written (batchByProp propName xs) = map run_batch (group_runs (\<lambda>x. get_prop x propName) xs)"
proof -
  obtain e es where xs: "xs = e # es" using assms(2) by (cases xs) auto
  let ?b = "\<lparr>accumulate_pattern = get_prop e propName, items = [e]\<rparr>"
  have first: "samePattern_forEachEntry (sameProperty propName) samePattern_beginWith e =
                 \<lparr>batch_to_update = ?b, batch_to_push = None\<rparr>"
    by (simp add: samePattern_forEachEntry_def samePattern_beginWith_def sameProperty_def)
  from assms(1) xs have "key_ok (get_prop e propName)" "\<forall>x \<in> set es. key_ok (get_prop x propName)"
    by auto
  from sameProperty_fold_runs [OF _ this(2), of ?b] this(1) first xs show ?thesis
    by (simp add: batchByProp_def samePattern_written)
qed

subsection \<open>Properties of \<open>batchByProp\<close>\<close>

text \<open>
  C2. Refinement: when no entry has \<open>null\<close> or \<open>NaN\<close> at \<open>propName\<close>, \<open>batchByProp\<close> writes
  the maximal runs of consecutive entries with equal \<open>x[propName]\<close>, each as a
  batch whose pattern is the run's key; on the empty input it writes the one
  empty batch.
\<close>

theorem batchByProp_refines_runs:
  assumes "\<forall>x \<in> set xs. key_ok (get_prop x propName)"
  shows "written (batchByProp propName xs) =
           (if xs = [] then [\<lparr>accumulate_pattern = None, items = []\<rparr>]
            else map run_batch (group_runs (\<lambda>x. get_prop x propName) xs))"
proof (cases "xs = []")
  case True
  then show ?thesis by (simp add: batchByProp_written_Nil)
next
  case False
  with batchByProp_written_runs [OF assms False] show ?thesis by simp
qed

theorem batchByProp_refines_runs_witness:
  "key_ok (get_prop [(''k'', Some (JNum 1))] ''k'')
   \<and> key_ok (get_prop [(''k'', Some (JStr ''b''))] ''k'')
   \<and> written (batchByProp ''k'' [[(''k'', Some (JNum 1))], [(''k'', Some (JNum 1))], [(''k'', Some (JStr ''b''))]]
        :: (_, unit) bb_run)
      = [\<lparr>accumulate_pattern = Some (JNum 1), items = [[(''k'', Some (JNum 1))], [(''k'', Some (JNum 1))]]\<rparr>,
         \<lparr>accumulate_pattern = Some (JStr ''b''), items = [[(''k'', Some (JStr ''b''))]]\<rparr>]"
proof -
  let ?xs = "[[(''k'', Some (JNum 1))], [(''k'', Some (JNum 1))], [(''k'', Some (JStr ''b''))]]"
  have h: "\<forall>x \<in> set ?xs. key_ok (get_prop x ''k'')" by (simp add: get_prop_def key_ok_def)
  show ?thesis
    using batchByProp_refines_runs [OF h]
    by (simp add: get_prop_def run_batch_def key_ok_def)
qed

text \<open>
  C9. Grouping (section 8 of the specification): when no entry has \<open>null\<close> or
  \<open>NaN\<close> at \<open>propName\<close> and the input is not empty, every batch written is nonempty, all its
  items have \<open>x[propName]\<close> equal to its \<open>accumulate_pattern\<close>, and consecutive
  batches have different patterns.
\<close>

theorem batchByProp_grouping:
  assumes "\<forall>x \<in> set xs. key_ok (get_prop x propName)" and "xs \<noteq> []"
  shows "(\<forall>b \<in> set (written (batchByProp propName xs)).
            items b \<noteq> [] \<and> (\<forall>x \<in> set (items b). get_prop x propName = accumulate_pattern b))
         \<and> successively (\<lambda>a b. accumulate_pattern a \<noteq> accumulate_pattern b) (written (batchByProp propName xs))"
proof -
  let ?rs = "group_runs (\<lambda>x. get_prop x propName) xs"
  have w: "written (batchByProp propName xs) = map run_batch ?rs"
    by (rule batchByProp_written_runs [OF assms])
  have "\<forall>r \<in> set ?rs. run_ok (\<lambda>x. get_prop x propName) r" by (rule group_runs_ok)
  moreover have "successively (\<lambda>a b. fst a \<noteq> fst b) ?rs" by (rule group_runs_adjacent)
  ultimately show ?thesis
    by (auto simp: w run_batch_def run_ok_def successively_map)
qed

theorem batchByProp_grouping_witness:
  "key_ok (get_prop [(''k'', Some (JNum 1))] ''k'')
   \<and> key_ok (get_prop [(''k'', Some (JNum 2))] ''k'')
   \<and> successively (\<lambda>a b. accumulate_pattern a \<noteq> accumulate_pattern b)
        (written (batchByProp ''k'' [[(''k'', Some (JNum 1))], [(''k'', Some (JNum 2))]] :: (_, unit) bb_run))"
proof -
  let ?xs = "[[(''k'', Some (JNum 1))], [(''k'', Some (JNum 2))]]"
  have h: "\<forall>x \<in> set ?xs. key_ok (get_prop x ''k'')" by (simp add: get_prop_def key_ok_def)
  have n: "?xs \<noteq> []" by simp
  have "successively (\<lambda>a b. accumulate_pattern a \<noteq> accumulate_pattern b)
          (written (batchByProp ''k'' ?xs :: (_, unit) bb_run))"
    using batchByProp_grouping [OF h n] by (rule conjunct2)
  then show ?thesis by (simp add: get_prop_def key_ok_def)
qed

text \<open>
  C21. Scenario B: a nonempty input whose entries all have the same value at
  \<open>propName\<close>, not \<open>NaN\<close>, gives exactly one batch with all of them.
\<close>

theorem batchByProp_one_key:
  assumes "\<forall>x \<in> set xs. get_prop x propName = Some v" and "v \<noteq> JNaN" and "xs \<noteq> []"
  shows "written (batchByProp propName xs) = [\<lparr>accumulate_pattern = Some v, items = xs\<rparr>]"
proof -
  from assms(1,2) have "\<forall>x \<in> set xs. key_ok (get_prop x propName)" by (simp add: key_ok_def)
  from batchByProp_written_runs [OF this assms(3)] group_runs_same_key [OF assms(1,3)] show ?thesis
    by (simp add: run_batch_def)
qed

theorem batchByProp_one_key_witness:
  "written (batchByProp ''k'' [[(''k'', Some (JBool True))], [(''k'', Some (JBool True)), (''n'', None)]]
      :: (_, unit) bb_run)
   = [\<lparr>accumulate_pattern = Some (JBool True),
       items = [[(''k'', Some (JBool True))], [(''k'', Some (JBool True)), (''n'', None)]]\<rparr>]"
  by (rule batchByProp_one_key) (simp_all add: get_prop_def key_ok_def)

text \<open>
  C22. Scenario C: when no entry has \<open>null\<close> or \<open>NaN\<close> at \<open>propName\<close> and no two neighbours
  share a value there (in particular when all values are distinct), every entry
  is a batch of its own, in input order.
\<close>

theorem batchByProp_distinct_keys:
  assumes "\<forall>x \<in> set xs. key_ok (get_prop x propName)" and "xs \<noteq> []"
    and "successively (\<lambda>x y. get_prop x propName \<noteq> get_prop y propName) xs"
  shows "written (batchByProp propName xs) =
           map (\<lambda>x. \<lparr>accumulate_pattern = get_prop x propName, items = [x]\<rparr>) xs"
  using batchByProp_written_runs [OF assms(1,2)] group_runs_distinct_keys [OF assms(3)]
  by (simp add: run_batch_def comp_def)

theorem batchByProp_distinct_keys_witness:
  "written (batchByProp ''k'' [[(''k'', Some (JNum 1))], [(''k'', Some (JNum 2))], [(''k'', Some (JNum 3))]]
      :: (_, unit) bb_run)
   = [\<lparr>accumulate_pattern = Some (JNum 1), items = [[(''k'', Some (JNum 1))]]\<rparr>,
      \<lparr>accumulate_pattern = Some (JNum 2), items = [[(''k'', Some (JNum 2))]]\<rparr>,
      \<lparr>accumulate_pattern = Some (JNum 3), items = [[(''k'', Some (JNum 3))]]\<rparr>]"
proof -
  have "written (batchByProp ''k'' [[(''k'', Some (JNum 1))], [(''k'', Some (JNum 2))], [(''k'', Some (JNum 3))]]
          :: (_, unit) bb_run)
        = map (\<lambda>x. \<lparr>accumulate_pattern = get_prop x ''k'', items = [x]\<rparr>)
            [[(''k'', Some (JNum 1))], [(''k'', Some (JNum 2))], [(''k'', Some (JNum 3))]]"
    by (rule batchByProp_distinct_keys) (simp_all add: get_prop_def key_ok_def)
  then show ?thesis by (simp add: get_prop_def)
qed



text \<open>
  C4. Round trip: flattening a well-formed list of batches and running
  \<open>batchByProp\<close> on the entries gives the same batches back. Together with C1
  (flattening the output gives the input back) this makes \<open>batchByProp\<close> and
  flattening inverse bijections between nonempty inputs without \<open>null\<close> or \<open>NaN\<close> keys and
  well-formed batch lists.
\<close>

theorem batchByProp_roundtrip:
  assumes "batches_wf propName bs"
  shows "written (batchByProp propName (concat (map items bs))) = bs"
proof -
  let ?f = "\<lambda>x. get_prop x propName"
  let ?rs = "map (\<lambda>b. (accumulate_pattern b, items b)) bs"
  from assms have ok: "\<forall>r \<in> set ?rs. run_ok ?f r"
    by (auto simp: batches_wf_def run_ok_def list_all_iff)
  from assms have adj: "successively (\<lambda>a b. fst a \<noteq> fst b) ?rs"
    by (simp add: batches_wf_def successively_map)
  have cat: "concat (map snd ?rs) = concat (map items bs)" by (simp add: comp_def)
  from assms have nn: "\<forall>x \<in> set (concat (map items bs)). key_ok (?f x)"
    by (auto simp: batches_wf_def list_all_iff)
  from assms have ne: "concat (map items bs) \<noteq> []"
    by (cases bs) (auto simp: batches_wf_def)
  from batchByProp_written_runs [OF nn ne] group_runs_of_runs [OF ok adj] cat show ?thesis
    by (simp add: comp_def)
qed

theorem batchByProp_roundtrip_witness:
  "written (batchByProp ''k''
     (concat (map items [\<lparr>accumulate_pattern = Some (JNum 1), items = [[(''k'', Some (JNum 1))], [(''k'', Some (JNum 1)), (''v'', None)]]\<rparr>,
                         \<lparr>accumulate_pattern = Some JUndefined, items = [[(''v'', Some (JBool False))]]\<rparr>])) :: (_, unit) bb_run)
   = [\<lparr>accumulate_pattern = Some (JNum 1), items = [[(''k'', Some (JNum 1))], [(''k'', Some (JNum 1)), (''v'', None)]]\<rparr>,
      \<lparr>accumulate_pattern = Some JUndefined, items = [[(''v'', Some (JBool False))]]\<rparr>]"
  by (rule batchByProp_roundtrip) (simp add: batches_wf_def get_prop_def key_ok_def)

text \<open>
  C17. Finding on \<open>===\<close> (line 87): \<open>NaN\<close> is not strictly equal to itself, so
  entries whose property is \<open>NaN\<close> never group: each is a batch of its own, although
  they all have the same key.
\<close>

theorem batchByProp_nan_splits:
  assumes "\<forall>x \<in> set xs. get_prop x propName = Some JNaN" and "xs \<noteq> []"
  shows "written (batchByProp propName xs) = map (\<lambda>x. \<lparr>accumulate_pattern = Some JNaN, items = [x]\<rparr>) xs"
proof -
  obtain e es where xs: "xs = e # es" using assms(2) by (cases xs) auto
  let ?b = "\<lparr>accumulate_pattern = Some JNaN, items = [e]\<rparr>"
  from assms(1) xs have first: "samePattern_forEachEntry (sameProperty propName) samePattern_beginWith e =
                 \<lparr>batch_to_update = ?b, batch_to_push = None\<rparr>"
    by (simp add: samePattern_forEachEntry_def samePattern_beginWith_def sameProperty_def)
  from assms(1) xs have "\<forall>x \<in> set es. get_prop x propName = Some JNaN" by simp
  from sameProperty_fold_nan [OF _ this, of ?b] first xs show ?thesis
    by (simp add: batchByProp_def samePattern_written)
qed

theorem batchByProp_nan_splits_witness:
  "written (batchByProp ''k'' [[(''k'', Some JNaN)], [(''k'', Some JNaN), (''id'', Some (JNum 2))]] :: (_, unit) bb_run)
   = [\<lparr>accumulate_pattern = Some JNaN, items = [[(''k'', Some JNaN)]]\<rparr>,
      \<lparr>accumulate_pattern = Some JNaN, items = [[(''k'', Some JNaN), (''id'', Some (JNum 2))]]\<rparr>]"
proof -
  have "written (batchByProp ''k'' [[(''k'', Some JNaN)], [(''k'', Some JNaN), (''id'', Some (JNum 2))]] :: (_, unit) bb_run)
        = map (\<lambda>x. \<lparr>accumulate_pattern = Some JNaN, items = [x]\<rparr>)
            [[(''k'', Some JNaN)], [(''k'', Some JNaN), (''id'', Some (JNum 2))]]"
    by (rule batchByProp_nan_splits) (simp_all add: get_prop_def)
  then show ?thesis by simp
qed

end
