(* ===== verification/Stream_Steps.thy ===== *)
theory Stream_Steps
  imports BatchBy
begin

text \<open>
  The transform of \<open>BatchBy\<close> seen as the state machine the highland pipeline
  drives (lines 11--26 of \<open>highland-batch-by.ts\<close>): the input stream delivers
  entries one at a time and then its end; each delivery is one step. A running
  configuration holds the accumulator and what was written to
  \<open>output_stream\<close>; a stopped one holds what was written and whether
  \<open>output_stream\<close> was ended or an exception escaped. A stopped pipeline takes
  no further part: events delivered to it change nothing.

  The lemmas show that the relation is deterministic and total, that runs only
  ever append to the output, that a run cut off before the end of its input never
  calls \<open>end\<close> and never ends the output stream, and that the run over an input
  followed by its end is the functional \<open>batchBy\<close>.
\<close>

datatype 'e input_event = Next_entry 'e | Input_end

datatype ('b, 'pb, 'x) bb_config =
    Running 'b "'pb list"
  | Stopped "'pb list" "'x bb_status"

fun config_written :: "('b, 'pb, 'x) bb_config \<Rightarrow> 'pb list" where
  "config_written (Running b out) = out"
| "config_written (Stopped out st) = out"

fun is_ended :: "('b, 'pb, 'x) bb_config \<Rightarrow> bool" where
  "is_ended (Stopped out Stream_ended) = True"
| "is_ended _ = False"

text \<open>\<open>control.beginWith()\<close> (line 12), which may throw before anything runs.\<close>

definition bb_init :: "('b, 'e, 'pb, 'x) control \<Rightarrow> ('b, 'pb, 'x) bb_config" where
  "bb_init c = (case beginWith c of Inl x \<Rightarrow> Stopped [] (Error_escaped x) | Inr b \<Rightarrow> Running b [])"

text \<open>The configuration the scan of \<open>BatchBy\<close> reaches over a list of entries.\<close>

definition scan_config ::
  "'pb truthiness \<Rightarrow> ('b, 'e, 'pb, 'x) control \<Rightarrow> 'b \<Rightarrow> 'pb list \<Rightarrow> 'e list \<Rightarrow> ('b, 'pb, 'x) bb_config" where
  "scan_config truthy c b out xs =
     (case scan_last (scan_step truthy c) (b, out) xs of
        Inl (x, _, out') \<Rightarrow> Stopped out' (Error_escaped x)
      | Inr (b', out') \<Rightarrow> Running b' out')"

inductive bb_step ::
  "'pb truthiness \<Rightarrow> ('b, 'e, 'pb, 'x) control \<Rightarrow> ('b, 'pb, 'x) bb_config \<Rightarrow> 'e input_event \<Rightarrow>
     ('b, 'pb, 'x) bb_config \<Rightarrow> bool"
  for truthy c where
  entry: "forEachEntry c b e = Inr r \<Longrightarrow>
     bb_step truthy c (Running b out) (Next_entry e)
       (Running (batch_to_update r) (push_if truthy (batch_to_push r) out))"
| entry_throws: "forEachEntry c b e = Inl x \<Longrightarrow>
     bb_step truthy c (Running b out) (Next_entry e) (Stopped out (Error_escaped x))"
| input_end: "end_fn c b = Inr p \<Longrightarrow>
     bb_step truthy c (Running b out) Input_end (Stopped (push_if truthy p out) Stream_ended)"
| end_throws: "end_fn c b = Inl x \<Longrightarrow>
     bb_step truthy c (Running b out) Input_end (Stopped out (Error_escaped x))"
| stopped: "bb_step truthy c (Stopped out st) ev (Stopped out st)"

inductive bb_steps ::
  "'pb truthiness \<Rightarrow> ('b, 'e, 'pb, 'x) control \<Rightarrow> ('b, 'pb, 'x) bb_config \<Rightarrow> 'e input_event list \<Rightarrow>
     ('b, 'pb, 'x) bb_config \<Rightarrow> bool"
  for truthy c where
  steps_Nil: "bb_steps truthy c s [] s"
| steps_Cons: "bb_step truthy c s ev s' \<Longrightarrow> bb_steps truthy c s' evs s'' \<Longrightarrow> bb_steps truthy c s (ev # evs) s''"

inductive_cases bb_step_RunningE: "bb_step truthy c (Running b out) ev s'"
inductive_cases bb_step_StoppedE: "bb_step truthy c (Stopped out st) ev s'"
inductive_simps bb_steps_Nil_iff: "bb_steps truthy c s [] s'"
inductive_simps bb_steps_Cons_iff: "bb_steps truthy c s (ev # evs) s'"

subsection \<open>Lemmas on the steps\<close>

lemma bb_step_deterministic:
  "bb_step truthy c s ev s1 \<Longrightarrow> bb_step truthy c s ev s2 \<Longrightarrow> s1 = s2"
  by (induction rule: bb_step.induct) (auto elim: bb_step_RunningE bb_step_StoppedE)

lemma bb_step_total: "\<exists>s'. bb_step truthy c s ev s'"
proof (cases s)
  case (Running b out)
  show ?thesis
  proof (cases ev)
    case (Next_entry e)
    with Running show ?thesis
      by (cases "forEachEntry c b e") (auto intro: bb_step.entry bb_step.entry_throws)
  next
    case Input_end
    with Running show ?thesis
      by (cases "end_fn c b") (auto intro: bb_step.input_end bb_step.end_throws)
  qed
next
  case (Stopped out st)
  then show ?thesis by (auto intro: bb_step.stopped)
qed

lemma bb_step_extends: "bb_step truthy c s ev s' \<Longrightarrow> prefix (config_written s) (config_written s')"
  by (induction rule: bb_step.induct) (simp_all add: push_if_filter)

lemma bb_steps_append:
  "bb_steps truthy c s evs s' \<Longrightarrow> bb_steps truthy c s' evs' s'' \<Longrightarrow> bb_steps truthy c s (evs @ evs') s''"
  by (induction rule: bb_steps.induct) (auto intro: bb_steps.steps_Cons)

lemma bb_steps_deterministic:
  "bb_steps truthy c s evs s1 \<Longrightarrow> bb_steps truthy c s evs s2 \<Longrightarrow> s1 = s2"
proof (induction arbitrary: s2 rule: bb_steps.induct)
  case (steps_Nil s)
  then show ?case by (simp add: bb_steps_Nil_iff)
next
  case (steps_Cons s ev s' evs s'')
  from steps_Cons.prems obtain t where t: "bb_step truthy c s ev t" and rest: "bb_steps truthy c t evs s2"
    by (auto simp: bb_steps_Cons_iff)
  from bb_step_deterministic [OF steps_Cons.hyps(1) t] rest show ?case
    by (simp add: steps_Cons.IH)
qed

lemma bb_steps_total: "\<exists>s'. bb_steps truthy c s evs s'"
proof (induction evs arbitrary: s)
  case Nil
  then show ?case by (auto intro: bb_steps.steps_Nil)
next
  case (Cons ev evs)
  from bb_step_total obtain t where "bb_step truthy c s ev t" by blast
  with Cons.IH [of t] show ?case by (auto intro: bb_steps.steps_Cons)
qed

lemma bb_steps_extends: "bb_steps truthy c s evs s' \<Longrightarrow> prefix (config_written s) (config_written s')"
  by (induction rule: bb_steps.induct) (auto dest: bb_step_extends intro: prefix_order.trans)

lemma bb_steps_Stopped: "bb_steps truthy c (Stopped out st) evs s' \<Longrightarrow> s' = Stopped out st"
  by (induction evs) (auto simp: bb_steps_Nil_iff bb_steps_Cons_iff elim: bb_step_StoppedE)

lemma bb_steps_entries:
  "bb_steps truthy c (Running b out) (map Next_entry xs) (scan_config truthy c b out xs)"
proof (induction xs arbitrary: b out)
  case Nil
  then show ?case by (simp add: scan_config_def bb_steps.steps_Nil)
next
  case (Cons e es)
  show ?case
  proof (cases "forEachEntry c b e")
    case (Inl x)
    have "bb_steps truthy c (Stopped out (Error_escaped x)) (map Next_entry es) (Stopped out (Error_escaped x))"
      using bb_steps_total [of truthy c "Stopped out (Error_escaped x)" "map Next_entry es"]
      by (auto dest: bb_steps_Stopped)
    with Inl show ?thesis
      by (auto simp: scan_config_def scan_step_Inl intro: bb_steps.steps_Cons bb_step.entry_throws)
  next
    case (Inr r)
    with Cons.IH [of "batch_to_update r" "push_if truthy (batch_to_push r) out"] show ?thesis
      by (auto simp: scan_config_def scan_step_Inr intro: bb_steps.steps_Cons bb_step.entry)
  qed
qed

text \<open>The configuration a whole input and its end lead to is the functional run.\<close>

lemma bb_steps_batchBy_run:
  "bb_steps truthy c (bb_init c) (map Next_entry xs @ [Input_end])
     (Stopped (written (batchBy truthy c xs)) (status (batchBy truthy c xs)))"
proof (cases "beginWith c")
  case (Inl x)
  then have "bb_init c = Stopped [] (Error_escaped x)" by (simp add: bb_init_def)
  with Inl show ?thesis
    using bb_steps_total [of truthy c "Stopped [] (Error_escaped x)" "map Next_entry xs @ [Input_end]"]
    by (auto simp: batchBy_def dest: bb_steps_Stopped)
next
  case (Inr b0)
  then have init: "bb_init c = Running b0 []" by (simp add: bb_init_def)
  have entries: "bb_steps truthy c (Running b0 []) (map Next_entry xs) (scan_config truthy c b0 [] xs)"
    by (rule bb_steps_entries)
  have last: "bb_steps truthy c (scan_config truthy c b0 [] xs) [Input_end]
                (Stopped (written (batchBy truthy c xs)) (status (batchBy truthy c xs)))"
  proof (cases "scan_last (scan_step truthy c) (b0, []) xs")
    case (Inl r)
    then show ?thesis
      using Inr by (cases r) (auto simp: scan_config_def batchBy_def bb_steps_Cons_iff bb_steps_Nil_iff
                                   intro: bb_step.stopped)
  next
    case (Inr r)
    obtain b' out' where r: "r = (b', out')" by (cases r) auto
    show ?thesis
    proof (cases "end_fn c b'")
      case (Inl x)
      with Inr r \<open>beginWith c = Inr b0\<close> show ?thesis
        by (auto simp: scan_config_def batchBy_def bb_steps_Cons_iff bb_steps_Nil_iff
                 intro: bb_step.end_throws)
    next
      case (Inr p)
      with \<open>scan_last (scan_step truthy c) (b0, []) xs = Inr r\<close> r \<open>beginWith c = Inr b0\<close> show ?thesis
        by (auto simp: scan_config_def batchBy_def bb_steps_Cons_iff bb_steps_Nil_iff
                 intro: bb_step.input_end)
    qed
  qed
  from bb_steps_append [OF entries last] init show ?thesis by simp
qed

lemma bb_step_entry_end_fn:
  "bb_step truthy c s (Next_entry e) s' \<Longrightarrow> bb_step truthy (c\<lparr>end_fn := g\<rparr>) s (Next_entry e) s'"
  by (erule bb_step.cases) (auto intro: bb_step.intros)

lemma bb_step_entry_not_ended:
  "bb_step truthy c s (Next_entry e) s' \<Longrightarrow> \<not> is_ended s \<Longrightarrow> \<not> is_ended s'"
  by (erule bb_step.cases) auto

subsection \<open>Properties of the streaming transform\<close>

text \<open>
  C13. Cancellation (section 5 of the specification): if the input stops delivering
  before its end, \<open>end\<close> has not been called (the run is the same whatever
  \<open>end\<close> does) and the output stream has not been ended.
\<close>

theorem bb_cancel_no_end:
  assumes "bb_steps truthy c (bb_init c) (map Next_entry xs) s"
  shows "\<not> is_ended s \<and> bb_steps truthy (c\<lparr>end_fn := g\<rparr>) (bb_init (c\<lparr>end_fn := g\<rparr>)) (map Next_entry xs) s"
proof -
  have init: "bb_init (c\<lparr>end_fn := g\<rparr>) = bb_init c" and "\<not> is_ended (bb_init c)"
    by (simp_all add: bb_init_def split: sum.split)
  have "\<not> is_ended s' \<and> bb_steps truthy (c\<lparr>end_fn := g\<rparr>) s0 (map Next_entry ys) s'"
    if "bb_steps truthy c s0 (map Next_entry ys) s'" "\<not> is_ended s0" for s0 ys s'
    using that
  proof (induction ys arbitrary: s0)
    case Nil
    then show ?case by (simp add: bb_steps_Nil_iff bb_steps.steps_Nil)
  next
    case (Cons e es)
    then obtain t where t: "bb_step truthy c s0 (Next_entry e) t" and rest: "bb_steps truthy c t (map Next_entry es) s'"
      by (auto simp: bb_steps_Cons_iff)
    from Cons.IH [OF rest bb_step_entry_not_ended [OF t Cons.prems(2)]] bb_step_entry_end_fn [OF t]
    show ?case by (auto intro: bb_steps.steps_Cons)
  qed
  with assms \<open>\<not> is_ended (bb_init c)\<close> init show ?thesis by metis
qed

theorem bb_cancel_no_end_witness:
  "\<not> is_ended (Running (3::nat) [1, 2] :: (nat, nat, unit) bb_config)
   \<and> bb_steps object_truthy ((\<lparr>beginWith = Inr (0::nat),
        forEachEntry = (\<lambda>b e. Inr \<lparr>batch_to_update = b + e, batch_to_push = Some e\<rparr>),
        end_fn = (\<lambda>b. Inr (Some b))\<rparr>)\<lparr>end_fn := (\<lambda>b. Inl ())\<rparr>)
        (bb_init ((\<lparr>beginWith = Inr (0::nat),
        forEachEntry = (\<lambda>b e. Inr \<lparr>batch_to_update = b + e, batch_to_push = Some e\<rparr>),
        end_fn = (\<lambda>b. Inr (Some b))\<rparr>)\<lparr>end_fn := (\<lambda>b. Inl ())\<rparr>)) (map Next_entry [1, 2]) (Running 3 [1, 2])"
proof -
  let ?c = "\<lparr>beginWith = Inr (0::nat),
        forEachEntry = (\<lambda>b e. Inr \<lparr>batch_to_update = b + e, batch_to_push = Some e\<rparr>),
        end_fn = (\<lambda>b. Inr (Some b))\<rparr>"
  have "bb_steps object_truthy ?c (Running 0 []) (map Next_entry [1, 2]) (scan_config object_truthy ?c 0 [] [1, 2])"
    by (rule bb_steps_entries)
  then have h: "bb_steps object_truthy ?c (bb_init ?c) (map Next_entry [1, 2]) (Running 3 [1, 2])"
    by (simp add: bb_init_def scan_config_def scan_step_def push_if_def)
  show ?thesis using bb_cancel_no_end [OF h, of "\<lambda>b. Inl ()"] by simp
qed

text \<open>
  C14. Emission before the end (section 4.2, step 2, of the specification): for a
  policy that never throws, once the entries of \<open>xs\<close> have been delivered, and
  before the input ends, the pipeline is running with the accumulator of the
  specification's fold and \<open>output_stream\<close> already holds every truthy push of
  \<open>forEachEntry\<close> for these entries, in order: nothing is held back until the end.
\<close>

theorem bb_emits_before_end:
  assumes "bb_steps truthy (lift_control c) (bb_init (lift_control c)) (map Next_entry xs) s"
  shows "s = Running (fst (spec_fold c (pure_beginWith c) xs)) (filter truthy (snd (spec_fold c (pure_beginWith c) xs)))"
proof -
  have run: "bb_steps truthy (lift_control c) (Running b out) (map Next_entry ys)
               (Running (fst (spec_fold c b ys)) (out @ filter truthy (snd (spec_fold c b ys))))" for b out ys
  proof (induction ys arbitrary: b out)
    case Nil
    show ?case by (simp add: bb_steps.steps_Nil)
  next
    case (Cons e es)
    let ?r = "pure_forEachEntry c b e"
    have "bb_step truthy (lift_control c) (Running b out) (Next_entry e)
            (Running (batch_to_update ?r) (push_if truthy (batch_to_push ?r) out))"
      by (rule bb_step.entry) simp
    with Cons.IH [of "batch_to_update ?r" "push_if truthy (batch_to_push ?r) out"] show ?case
      by (auto simp: push_if_filter intro: bb_steps.steps_Cons)
  qed
  have init: "bb_init (lift_control c) = Running (pure_beginWith c) []" by (simp add: bb_init_def)
  have "bb_steps truthy (lift_control c) (bb_init (lift_control c)) (map Next_entry xs)
          (Running (fst (spec_fold c (pure_beginWith c) xs)) (filter truthy (snd (spec_fold c (pure_beginWith c) xs))))"
    unfolding init using run [of "pure_beginWith c" "[]" xs] by simp
  with assms show ?thesis by (rule bb_steps_deterministic)
qed

theorem bb_emits_before_end_witness:
  "Running (3::nat) [1, 2] =
     Running (fst (spec_fold \<lparr>pure_beginWith = 0::nat,
                              pure_forEachEntry = (\<lambda>b e. \<lparr>batch_to_update = b + e, batch_to_push = Some e\<rparr>),
                              pure_end = Some\<rparr> 0 [1, 2]))
             (filter object_truthy (snd (spec_fold \<lparr>pure_beginWith = 0::nat,
                              pure_forEachEntry = (\<lambda>b e. \<lparr>batch_to_update = b + e, batch_to_push = Some e\<rparr>),
                              pure_end = Some\<rparr> 0 [1, 2])))"
proof -
  let ?c = "\<lparr>pure_beginWith = 0::nat,
             pure_forEachEntry = (\<lambda>b e. \<lparr>batch_to_update = b + e, batch_to_push = Some e\<rparr>),
             pure_end = Some\<rparr>"
  have "bb_steps object_truthy (lift_control ?c :: (_, _, _, unit) control) (Running 0 []) (map Next_entry [1, 2])
          (scan_config object_truthy (lift_control ?c) 0 [] [1, 2])"
    by (rule bb_steps_entries)
  then have h: "bb_steps object_truthy (lift_control ?c :: (_, _, _, unit) control) (bb_init (lift_control ?c))
                  (map Next_entry [1, 2]) (Running 3 [1, 2])"
    by (simp add: bb_init_def scan_config_def scan_step_def push_if_def)
  from bb_emits_before_end [OF h] show ?thesis by simp
qed

end
