(* ===== verification/SamePatternJS.thy ===== *)
theory SamePatternJS
  imports SamePattern
begin

text \<open>
  \<open>samePattern\<close> of \<open>highland-batch-by.ts\<close> (lines 38--80) with caller callbacks
  that may throw. \<open>extractPattern\<close> and \<open>same\<close> are JavaScript functions supplied
  by the caller; each returns \<open>'x + _\<close> here, \<open>Inl x\<close> being the exception it
  throws. The order of evaluation is the code's: \<open>extractPattern\<close> first (line
  49), then the test \<open>accumulate_pattern === null || same(...)\<close> (line 50), whose
  \<open>||\<close> does not call \<open>same\<close> while the accumulated pattern is \<open>null\<close>. An
  exception of either callback is an exception of \<open>forEachEntry\<close>, which the
  transform of \<open>BatchBy\<close> turns into a stopped run.

  The lemmas show that \<open>same\<close> is never called for the first entry, and that even
  when a callback throws the batches written hold a prefix of the input, the whole
  input when the run completes.
\<close>

record ('e, 'p, 'x) pattern_config_js =
  extractPattern_js :: "'e \<Rightarrow> 'p nullable \<Rightarrow> 'x + 'p nullable"
  same_js :: "'p nullable \<Rightarrow> 'p nullable \<Rightarrow> 'x + bool"

definition samePattern_js_forEachEntry ::
  "('e, 'p, 'x) pattern_config_js \<Rightarrow> ('p, 'e) sp_batch \<Rightarrow> 'e \<Rightarrow> 'x + (('p, 'e) sp_batch, ('p, 'e) sp_batch) each_result" where
  "samePattern_js_forEachEntry cfg batch entry =
     (case extractPattern_js cfg entry (accumulate_pattern batch) of
        Inl x \<Rightarrow> Inl x
      | Inr current_pattern \<Rightarrow>
          (case (if accumulate_pattern batch = None then Inr True
                 else same_js cfg (accumulate_pattern batch) current_pattern) of
             Inl x \<Rightarrow> Inl x
           | Inr True \<Rightarrow>
               Inr \<lparr>batch_to_update = \<lparr>accumulate_pattern = current_pattern, items = items batch @ [entry]\<rparr>,
                    batch_to_push = None\<rparr>
           | Inr False \<Rightarrow>
               Inr \<lparr>batch_to_update = \<lparr>accumulate_pattern = current_pattern, items = [entry]\<rparr>,
                    batch_to_push = Some \<lparr>accumulate_pattern = accumulate_pattern batch, items = items batch\<rparr>\<rparr>))"

definition samePattern_js ::
  "('e, 'p, 'x) pattern_config_js \<Rightarrow> (('p, 'e) sp_batch, 'e, ('p, 'e) sp_batch, 'x) control" where
  "samePattern_js cfg =
     \<lparr>beginWith = Inr samePattern_beginWith,
      forEachEntry = samePattern_js_forEachEntry cfg,
      end_fn = (\<lambda>last_batch. Inr (samePattern_end last_batch))\<rparr>"

subsection \<open>Lemmas on the operations\<close>

lemma samePattern_js_sel [simp, batch_simps]:
  "beginWith (samePattern_js cfg) = Inr samePattern_beginWith"
  "forEachEntry (samePattern_js cfg) = samePattern_js_forEachEntry cfg"
  "end_fn (samePattern_js cfg) b = Inr (Some b)"
  by (simp_all add: samePattern_js_def)

text \<open>A step that returns keeps every entry: what it pushes, then the new batch, hold the old batch's items and the entry.\<close>

lemma samePattern_js_step_items:
  "samePattern_js_forEachEntry cfg b e = Inr r \<Longrightarrow>
     concat (map items (opt_list (batch_to_push r))) @ items (batch_to_update r) = items b @ [e]"
  by (auto simp: samePattern_js_forEachEntry_def split: sum.splits if_splits bool.splits)

lemma samePattern_js_scan_done:
  "scan_last (scan_step object_truthy (samePattern_js cfg)) (b, out) xs = Inr (b', out') \<Longrightarrow>
     concat (map items out') @ items b' = concat (map items out) @ items b @ xs"
proof (induction xs arbitrary: b out)
  case (Cons e es)
  then obtain r where r: "samePattern_js_forEachEntry cfg b e = Inr r"
    and rest: "scan_last (scan_step object_truthy (samePattern_js cfg))
                 (batch_to_update r, out @ opt_list (batch_to_push r)) es = Inr (b', out')"
    by (cases "samePattern_js_forEachEntry cfg b e")
       (auto simp: scan_step_Inl scan_step_Inr push_if_object simp del: object_truthy_True)
  from Cons.IH [OF rest] samePattern_js_step_items [OF r] show ?case by simp
qed simp

lemma samePattern_js_scan_stopped:
  "scan_last (scan_step object_truthy (samePattern_js cfg)) (b, out) xs = Inl (x, b', out') \<Longrightarrow>
     \<exists>ys. prefix ys xs \<and> concat (map items out') @ items b' = concat (map items out) @ items b @ ys"
proof (induction xs arbitrary: b out)
  case (Cons e es)
  show ?case
  proof (cases "samePattern_js_forEachEntry cfg b e")
    case (Inl y)
    with Cons.prems show ?thesis
      by (auto simp: scan_step_Inl simp del: object_truthy_True intro: exI [of _ "[]"])
  next
    case (Inr r)
    with Cons.prems have "scan_last (scan_step object_truthy (samePattern_js cfg))
                 (batch_to_update r, out @ opt_list (batch_to_push r)) es = Inl (x, b', out')"
      by (simp add: scan_step_Inr push_if_object del: object_truthy_True)
    from Cons.IH [OF this] obtain ys where "prefix ys es"
      and "concat (map items out') @ items b' =
             concat (map items (out @ opt_list (batch_to_push r))) @ items (batch_to_update r) @ ys" by blast
    with samePattern_js_step_items [OF Inr] show ?thesis
      by (intro exI [of _ "e # ys"]) simp
  qed
qed simp

subsection \<open>Properties of the policy with throwing callbacks\<close>

text \<open>
  C20. Short-circuit of \<open>accumulate_pattern === null || same(...)\<close>: \<open>same\<close> is
  not called for the first entry. An input of one entry whose pattern is
  extracted gives its batch and ends the stream, whatever \<open>same\<close> does, even if
  it always throws.
\<close>

theorem samePattern_js_first_entry:
  assumes "extractPattern_js cfg e None = Inr p"
  shows "batchBy object_truthy (samePattern_js cfg) [e] =
           \<lparr>written = [\<lparr>accumulate_pattern = p, items = [e]\<rparr>], status = Stream_ended\<rparr>"
  using assms
  by (simp add: batchBy_def scan_step_def push_if_def samePattern_js_forEachEntry_def samePattern_beginWith_def)

theorem samePattern_js_first_entry_witness:
  "batchBy object_truthy
     (samePattern_js \<lparr>extractPattern_js = (\<lambda>e a. Inr (Some (e::nat))), same_js = (\<lambda>a b. Inl ''same threw'')\<rparr>) [7]
   = \<lparr>written = [\<lparr>accumulate_pattern = Some 7, items = [7]\<rparr>], status = Stream_ended\<rparr>"
  by (rule samePattern_js_first_entry) simp

text \<open>
  C12. Conservation under exceptions (section 7 of the specification: no partial or
  inconsistent batches after a failure): whatever the callbacks throw, the items of
  the batches written are a prefix of the input, in order; when the run completes
  they are the whole input.
\<close>

theorem samePattern_js_items_prefix:
  "prefix (concat (map items (written (batchBy object_truthy (samePattern_js cfg) xs)))) xs
   \<and> (status (batchBy object_truthy (samePattern_js cfg) xs) = Stream_ended \<longrightarrow>
        concat (map items (written (batchBy object_truthy (samePattern_js cfg) xs))) = xs)"
proof (cases "scan_last (scan_step object_truthy (samePattern_js cfg)) (samePattern_beginWith, []) xs")
  case (Inl r)
  obtain x b' out' where r: "r = (x, b', out')" by (cases r) auto
  with Inl samePattern_js_scan_stopped obtain ys where "prefix ys xs"
    and "concat (map items out') @ items b' = ys"
    by (fastforce simp: samePattern_beginWith_def)
  then have "prefix (concat (map items out')) xs" by (metis prefix_order.trans prefixI)
  with Inl r show ?thesis by (simp add: batchBy_def)
next
  case (Inr r)
  obtain b' out' where r: "r = (b', out')" by (cases r) auto
  with Inr samePattern_js_scan_done [of cfg samePattern_beginWith "[]" xs b' out']
  have "concat (map items out') @ items b' = xs" by (simp add: samePattern_beginWith_def)
  with Inr r show ?thesis by (simp add: batchBy_def push_if_def)
qed

theorem samePattern_js_items_prefix_witness:
  "written (batchBy object_truthy
     (samePattern_js \<lparr>extractPattern_js = (\<lambda>e a. if e = (3::nat) then Inl ''bad entry'' else Inr (Some (e mod 2))),
                      same_js = (\<lambda>a b. Inr (a = b))\<rparr>) [1, 5, 2, 3, 4])
     = [\<lparr>accumulate_pattern = Some 1, items = [1, 5]\<rparr>]
   \<and> status (batchBy object_truthy
     (samePattern_js \<lparr>extractPattern_js = (\<lambda>e a. if e = (3::nat) then Inl ''bad entry'' else Inr (Some (e mod 2))),
                      same_js = (\<lambda>a b. Inr (a = b))\<rparr>) [1, 5, 2, 3, 4]) = Error_escaped ''bad entry''
   \<and> prefix [1, 5] [1, 5, 2, 3, 4::nat]"
proof -
  let ?c = "samePattern_js \<lparr>extractPattern_js = (\<lambda>e a. if e = (3::nat) then Inl ''bad entry'' else Inr (Some (e mod 2))),
                      same_js = (\<lambda>a b. Inr (a = b))\<rparr>"
  have run: "batchBy object_truthy ?c [1, 5, 2, 3, 4] =
               \<lparr>written = [\<lparr>accumulate_pattern = Some 1, items = [1, 5]\<rparr>], status = Error_escaped ''bad entry''\<rparr>"
    by (simp add: batchBy_def scan_step_def push_if_def samePattern_js_forEachEntry_def samePattern_beginWith_def)
  from samePattern_js_items_prefix [of _ "[1, 5, 2, 3, 4]"] run show ?thesis by simp
qed

end
