(* ===== verification/TaggedPattern.thy ===== *)
theory TaggedPattern
  imports SamePattern
begin

text \<open>
  The redesign of section 9 of the specification: the batch in progress of
  \<open>samePattern\<close> as an explicit two-variant state, \<open>Tb_empty\<close> before the first
  entry and \<open>Tb_acc pattern items\<close> after it, instead of the \<open>null\<close> sentinel of
  \<open>accumulate_pattern\<close>. It is a reference definition, not code of the repository;
  the lemmas relate it to the code's policy of \<open>SamePattern\<close> by the abstraction
  \<open>tb_abs\<close> to \<open>TBatchSamePattern\<close>: the two policies write the same batches whenever
  \<open>extractPattern\<close> never returns \<open>null\<close>, and they differ as soon as it does.
\<close>

datatype ('p, 'e) tagged_batch = Tb_empty | Tb_acc "'p nullable" "'e list"

definition tb_abs :: "('p, 'e) tagged_batch \<Rightarrow> ('p, 'e) sp_batch" where
  "tb_abs t = (case t of Tb_empty \<Rightarrow> \<lparr>accumulate_pattern = None, items = []\<rparr>
                       | Tb_acc p xs \<Rightarrow> \<lparr>accumulate_pattern = p, items = xs\<rparr>)"

fun tagged_forEachEntry ::
  "('e, 'p) pattern_config \<Rightarrow> ('p, 'e) tagged_batch \<Rightarrow> 'e \<Rightarrow> (('p, 'e) tagged_batch, ('p, 'e) sp_batch) each_result" where
  "tagged_forEachEntry cfg Tb_empty entry =
     \<lparr>batch_to_update = Tb_acc (extractPattern cfg entry None) [entry], batch_to_push = None\<rparr>"
| "tagged_forEachEntry cfg (Tb_acc p xs) entry =
     (let current_pattern = extractPattern cfg entry p
      in if same cfg p current_pattern
         then \<lparr>batch_to_update = Tb_acc current_pattern (xs @ [entry]), batch_to_push = None\<rparr>
         else \<lparr>batch_to_update = Tb_acc current_pattern [entry],
               batch_to_push = Some \<lparr>accumulate_pattern = p, items = xs\<rparr>\<rparr>)"

definition samePattern_tagged ::
  "('e, 'p) pattern_config \<Rightarrow> (('p, 'e) tagged_batch, 'e, ('p, 'e) sp_batch) pure_control" where
  "samePattern_tagged cfg =
     \<lparr>pure_beginWith = Tb_empty,
      pure_forEachEntry = tagged_forEachEntry cfg,
      pure_end = (\<lambda>t. Some (tb_abs t))\<rparr>"

text \<open>The states on which the two designs agree: a pattern that is not \<open>null\<close>.\<close>

fun tb_ok :: "('p, 'e) tagged_batch \<Rightarrow> bool" where
  "tb_ok Tb_empty = True"
| "tb_ok (Tb_acc p xs) = (p \<noteq> None)"

subsection \<open>Simulation\<close>

lemma tagged_step_sim:
  assumes "tb_ok t" and "\<forall>e a. extractPattern cfg e a \<noteq> None"
  shows "samePattern_forEachEntry cfg (tb_abs t) e =
           \<lparr>batch_to_update = tb_abs (batch_to_update (tagged_forEachEntry cfg t e)),
            batch_to_push = batch_to_push (tagged_forEachEntry cfg t e)\<rparr>
         \<and> tb_ok (batch_to_update (tagged_forEachEntry cfg t e))"
  using assms by (cases t) (auto simp: tb_abs_def samePattern_forEachEntry_def Let_def)

lemma tagged_fold_sim:
  assumes "tb_ok t" and "\<forall>e a. extractPattern cfg e a \<noteq> None"
  shows "spec_fold (samePattern cfg) (tb_abs t) xs =
           (tb_abs (fst (spec_fold (samePattern_tagged cfg) t xs)), snd (spec_fold (samePattern_tagged cfg) t xs))"
  using assms(1)
proof (induction xs arbitrary: t)
  case (Cons e es)
  from tagged_step_sim [OF Cons.prems assms(2), of e] Cons.IH show ?case
    by (simp add: samePattern_tagged_def)
qed simp

subsection \<open>Properties\<close>

text \<open>
  C7. Refinement of the redesign: when \<open>extractPattern\<close> never returns \<open>null\<close>,
  the code's \<open>samePattern\<close>, with \<open>null\<close> as the \<open>empty\<close> sentinel, writes exactly
  what the two-variant design writes, on every input; so the sentinel is harmless
  there.
\<close>

theorem samePattern_tagged_equiv:
  assumes "\<forall>e a. extractPattern cfg e a \<noteq> None"
  shows "batchBy object_truthy (lift_control (samePattern cfg)) xs =
           batchBy object_truthy (lift_control (samePattern_tagged cfg)) xs"
proof -
  have b: "tb_abs Tb_empty = samePattern_beginWith" by (simp add: samePattern_beginWith_def tb_abs_def)
  have sim: "spec_fold (samePattern cfg) samePattern_beginWith xs =
               (tb_abs (fst (spec_fold (samePattern_tagged cfg) Tb_empty xs)),
                snd (spec_fold (samePattern_tagged cfg) Tb_empty xs))"
    using tagged_fold_sim [of Tb_empty cfg xs, unfolded b] assms by simp
  show ?thesis
    by (simp add: batchBy_lift spec_batchBy_proj sim) (simp add: samePattern_tagged_def)
qed

theorem samePattern_tagged_equiv_witness:
  "batchBy object_truthy (lift_control (samePattern \<lparr>extractPattern = (\<lambda>e _. Some (e::nat)), same = (=)\<rparr>)) [1, 1, 2]
     = (batchBy object_truthy (lift_control (samePattern_tagged \<lparr>extractPattern = (\<lambda>e _. Some (e::nat)), same = (=)\<rparr>)) [1, 1, 2]
         :: (_, unit) bb_run)"
  by (rule samePattern_tagged_equiv) simp

text \<open>
  C18. Finding (the open question of section 9): with a \<open>null\<close> pattern the designs
  differ, on every input that starts with an entry whose pattern is \<open>null\<close> and a
  second entry that \<open>same\<close> does not match with \<open>null\<close>. The code merges the two
  into its first batch; the two-variant design emits the first entry alone, with
  its \<open>null\<close> pattern.
\<close>

theorem samePattern_tagged_null_differs:
  assumes "extractPattern cfg e1 None = None" and "\<not> same cfg None (extractPattern cfg e2 None)"
  shows "take 2 (items (hd (written (batchBy object_truthy (lift_control (samePattern cfg)) (e1 # e2 # es)))))
           = [e1, e2]
         \<and> hd (written (batchBy object_truthy (lift_control (samePattern_tagged cfg)) (e1 # e2 # es)))
           = \<lparr>accumulate_pattern = None, items = [e1]\<rparr>"
proof
  let ?b = "\<lparr>accumulate_pattern = extractPattern cfg e2 None, items = [e1, e2]\<rparr>"
  let ?h = "hd (snd (spec_fold (samePattern cfg) ?b es) @ [fst (spec_fold (samePattern cfg) ?b es)])"
  have w: "written (batchBy object_truthy (lift_control (samePattern cfg)) (e1 # e2 # es)) =
             snd (spec_fold (samePattern cfg) ?b es) @ [fst (spec_fold (samePattern cfg) ?b es)]"
    using assms(1) by (simp add: samePattern_written samePattern_forEachEntry_def samePattern_beginWith_def)
  from samePattern_head_prefix [of ?b cfg es] obtain t where "items ?h = [e1, e2] @ t"
    by (auto simp: prefix_def)
  then show "take 2 (items (hd (written (batchBy object_truthy (lift_control (samePattern cfg)) (e1 # e2 # es)))))
              = [e1, e2]"
    unfolding w by simp
next
  show "hd (written (batchBy object_truthy (lift_control (samePattern_tagged cfg)) (e1 # e2 # es)))
          = \<lparr>accumulate_pattern = None, items = [e1]\<rparr>"
    using assms by (simp add: batchBy_lift spec_batchBy_proj samePattern_tagged_def)
qed

theorem samePattern_tagged_null_differs_witness:
  "take 2 (items (hd (written (batchBy object_truthy
      (lift_control (samePattern \<lparr>extractPattern = (\<lambda>e _. if e = 0 then None else Some (e::nat)), same = (=)\<rparr>))
      [0, 5] :: (_, unit) bb_run))))
     = [0, 5]
   \<and> hd (written (batchBy object_truthy
      (lift_control (samePattern_tagged \<lparr>extractPattern = (\<lambda>e _. if e = 0 then None else Some (e::nat)), same = (=)\<rparr>))
      [0, 5] :: (_, unit) bb_run))
     = \<lparr>accumulate_pattern = None, items = [0]\<rparr>"
proof -
  let ?cfg = "\<lparr>extractPattern = (\<lambda>e _. if e = 0 then None else Some (e::nat)), same = (=)\<rparr>"
  have h1: "extractPattern ?cfg 0 None = None" and h2: "\<not> same ?cfg None (extractPattern ?cfg 5 None)"
    by simp_all
  from samePattern_tagged_null_differs [OF h1 h2, of "[]"] show ?thesis by simp
qed

end
