(* ===== verification/Spec2Isabelle.thy ===== *)
theory Spec2Isabelle
  imports SameProperty Stream_Steps SamePatternJS TaggedPattern Output_Consumer
begin

text \<open>
  \<^bold>\<open>A verification of highland-batch-by.\<close>

  The program is \<open>src/libs/highland-batch-by/src/lib/highland-batch-by.ts\<close>: a
  stateful batching transform over a highland stream, driven by a three-callback
  policy, and one policy that groups consecutive entries with the same pattern;
  \<open>highland-batch-by.spec.ts\<close> beside it is its unit test. Its parts and how they
  interact:
  \<^item> the \<open>Control\<close> interface (lines 3--7): \<open>beginWith\<close>, \<open>forEachEntry\<close>, \<open>end\<close>;
  \<^item> \<open>batchBy(control)\<close> (lines 9--30): scans the input with \<open>forEachEntry\<close>,
    writing each truthy \<open>batch_to_push\<close> to a fresh \<open>output_stream\<close>, then
    calls \<open>end\<close> on the last accumulator (the initial one for an empty input),
    writes its truthy push, and ends \<open>output_stream\<close>;
  \<^item> \<open>samePattern({extractPattern, same})\<close> (lines 33--80): a \<open>Control\<close> whose
    batch is \<open>{accumulate_pattern, items}\<close>;
  \<^item> \<open>sameProperty(propName)\<close> and \<open>batchByProp(propName)\<close> (lines 82--89, 117):
    \<open>samePattern\<close> keyed by \<open>x[propName]\<close> with \<open>===\<close>, run through \<open>batchBy\<close>;
  \<^item> the highland operators \<open>scan\<close>, \<open>last\<close>, \<open>map\<close>, \<open>done\<close>, \<open>collect\<close> that
    \<open>batchBy\<close> and the test call, from the external library, and the
    consumer that reads \<open>output_stream\<close>.

  \<^bold>\<open>Theories.\<close>
  \<^item> \<open>Prelude\<close>: \<open>'a nullable\<close> for \<open>T | null\<close>, JavaScript truthiness as a
    predicate (\<open>object_truthy\<close>, \<open>int_truthy\<close>), \<open>opt_list\<close> for zero-or-one
    pushes, the \<open>batch_simps\<close> collection and shared list lemmas.
  \<^item> \<open>Control\<close>: the record \<open>control\<close> of the three callbacks, each returning
    \<open>'x + _\<close> so that a thrown exception \<open>x\<close> is the value \<open>Inl x\<close>;
    \<open>pure_control\<close> for a policy that never throws and \<open>lift_control\<close>, the
    interface on which the generic transform and the policies meet.
  \<^item> \<open>BatchBy\<close>: \<open>push_if\<close> (the truthiness test and write), \<open>scan_step\<close> (the
    scan callback), \<open>scan_last\<close> (\<open>scan(seed, f).last()\<close>, stopping at the first
    exception), \<open>batchBy\<close> (the whole transform; its result \<open>bb_run\<close> holds the
    values written to \<open>output_stream\<close> and whether it was ended or an exception
    escaped). The state the code mutates (accumulator, \<open>output_stream\<close>) is
    threaded explicitly. \<open>spec_fold\<close> and \<open>spec_batchBy\<close> are the abstract
    algorithm of section 4.2 of the specification, a right fold over a
    \<open>pure_control\<close>. Lemmas: refinement of the specification (exact when every
    push is truthy, \<open>filter truthy\<close> of it in general), the exception paths of
    \<open>forEachEntry\<close> and \<open>end\<close>, the bound of one write per entry plus one, and
    that every falsy push of the specification is missing from the output.
  \<^item> \<open>Stream_Steps\<close>: the same pipeline as an \<open>inductive\<close> step relation
    \<open>bb_step\<close> driven by input events (an entry, or the end of the input), one rule
    per thing the code does, with its runs \<open>bb_steps\<close>. Lemmas: determinism and
    totality, output only grows by appending, a run cut off before the end never
    calls \<open>end\<close> nor ends the output, a run on entries alone has already written
    every push of the specification fold (the pushes are emitted as the entries
    arrive, not at the end), and the run over an input and its end is \<open>batchBy\<close>.
  \<^item> \<open>SamePattern\<close>: \<open>batch_same_pattern\<close>, \<open>pattern_config\<close>, and the three
    callbacks of \<open>samePattern\<close> as a \<open>pure_control\<close>. Lemmas: conservation of the
    entries; no batch is empty except the single one written for the empty input;
    through the fold invariant \<open>sp_inv\<close>, for an equivalence \<open>same\<close> and
    non-null patterns consecutive batches are not the same and no batch has a
    null pattern; the invariant \<open>batch_shape\<close> (pattern \<open>null\<close> exactly when there
    are no items, the type of section 3) on every written batch.
  \<^item> \<open>SameProperty\<close>: JavaScript objects with primitive values (\<open>js_prim\<close>, with
    \<open>NaN\<close>; \<open>===\<close> is \<open>js_strict_eq\<close>, under which \<open>NaN\<close> equals nothing;
    association lists), \<open>get_prop\<close> for \<open>x[propName]\<close>, \<open>sameProperty\<close>,
    \<open>batchByProp\<close>, and the abstract specification \<open>group_runs\<close> (maximal runs of
    equal keys). Lemmas: refinement of \<open>group_runs\<close> for keys neither
    \<open>null\<close> nor \<open>NaN\<close> (\<open>key_ok\<close>), the grouping properties, the null-key finding
    (an entry without the property is merged into the next entry's batch, which
    takes that entry's key), the \<open>NaN\<close> finding (every \<open>NaN\<close> entry is a batch of
    its own), and the round trip: \<open>batchByProp\<close> of the flattening of a
    well-formed batch list (\<open>batches_wf\<close>) gives the list back.
  \<^item> \<open>SamePatternJS\<close>: \<open>samePattern\<close> with the caller's \<open>extractPattern\<close> and
    \<open>same\<close> allowed to throw (\<open>pattern_config_js\<close>,
    \<open>samePattern_js_forEachEntry\<close>, \<open>samePattern_js\<close>), in the order the code
    calls them: \<open>extractPattern\<close> first, \<open>same\<close> only when the accumulated
    pattern is not \<open>null\<close>. Lemmas: the first entry never reaches \<open>same\<close>;
    whatever throws, the entries written are a prefix of the input, all of it
    when the output is ended.
  \<^item> \<open>TaggedPattern\<close>: the redesign of section 9 of the specification, the
    batch in progress as \<open>Tb_empty | Tb_acc pattern items\<close> instead of the \<open>null\<close>
    sentinel (\<open>samePattern_tagged\<close>), a reference definition. Lemmas: a
    simulation through \<open>tb_abs\<close> shows the code writes what it writes when
    patterns are never \<open>null\<close>, and a first entry with a \<open>null\<close> pattern makes
    them differ on every such input.
  \<^item> \<open>Output_Consumer\<close>: \<open>output_stream\<close> between the transform and its
    consumer. \<open>hl_pull\<close> is a read (the next unread value, \<open>nil\<close> once the stream
    is ended and drained, otherwise a wait), \<open>sys_step\<close> interleaves deliveries of
    input events (steps of \<open>bb_step\<close>) with reads in any order, and
    \<open>delivered\<close> projects an interleaving on its input events. Lemmas: the
    consumer reads a prefix of what was written; whatever the interleaving, a
    consumer that reads \<open>nil\<close> has read exactly \<open>batchBy\<close>'s output; from every
    state reached after the whole input was delivered and the run ended normally,
    the remaining reads give the rest of the output and then \<open>nil\<close>.

  \<^bold>\<open>Bounds and fuel.\<close> None are needed: every loop of the code is the scan over a
  finite input, modelled by structural recursion on the list (\<open>scan_last\<close>,
  \<open>spec_fold\<close>); an unbounded input is covered by the step relation, whose
  properties hold for every finite prefix delivered so far.

  \<^bold>\<open>Not modelled.\<close> The highland operators \<open>scan\<close>, \<open>last\<close>, \<open>map\<close>, \<open>done\<close>
  and \<open>collect\<close> are library code: their combined effect on the lines that call
  them is modelled directly by \<open>scan_last\<close> and \<open>batchBy\<close>, and the buffered
  reads of \<open>output_stream\<close> by \<open>hl_pull\<close>. Interleaving of delivery and reads is
  modelled as any order of the two kinds of step, but timing and backpressure
  (pausing the producer when the consumer is slow) are not. Highland routes an
  exception thrown in a \<open>map\<close> callback into the stream as an error, which
  \<open>done\<close> does not see; the model takes a throwing callback to stop the run with
  the exception escaping the pipeline; in both, \<open>output_stream\<close> keeps what was
  written before the exception and is never ended. Objects as property values (\<open>===\<close>
  on them is reference equality) and the sign of zero are not modelled. The unit
  test \<open>highland-batch-by.spec.ts\<close> is not modelled: its only assertion is a
  jest snapshot, and the repository stores no snapshot to compare with.
\<close>

end
